theory Spec2Isabelle
  imports Main
begin

section \<open>JavaScript values\<close>

text \<open>
  The library is dynamically typed at its boundary: \<open>isYxpResults\<close> inspects a value of
  type \<open>unknown\<close>, and the handler's return value and every thrown value are arbitrary
  JavaScript values. They are modelled by one datatype. Numbers are restricted to
  integers (status codes, ids). An object is the list of its own enumerable properties in
  enumeration order, with distinct keys. \<open>JErr name message\<close> is an \<open>Error\<close> instance
  (\<open>TypeError\<close>, \<open>ValidationError\<close>): it has no own enumerable property.
\<close>

datatype jsval =
    JUndefined
  | JNull
  | JBool bool
  | JNum int
  | JStr string
  | JArr "jsval list"
  | JObj "(string \<times> jsval) list"
  | JErr string string

definition TypeError :: "string \<Rightarrow> jsval" where
  "TypeError msg = JErr ''TypeError'' msg"

text \<open>JavaScript truthiness, as used by \<open>a || b\<close>.\<close>

fun truthy :: "jsval \<Rightarrow> bool" where
  "truthy JUndefined = False"
| "truthy JNull = False"
| "truthy (JBool b) = b"
| "truthy (JNum n) = (n \<noteq> 0)"
| "truthy (JStr s) = (s \<noteq> [])"
| "truthy (JArr xs) = True"
| "truthy (JObj kvs) = True"
| "truthy (JErr n m) = True"

definition js_or :: "jsval \<Rightarrow> jsval \<Rightarrow> jsval" where
  "js_or a b = (if truthy a then a else b)"

text \<open>
  Member access \<open>v.p\<close>, for the property names the source reads (\<open>type\<close>, \<open>options\<close>,
  \<open>cookies\<close>, \<open>headers\<close>, \<open>statusCode\<close>, \<open>body\<close>, \<open>message\<close>): it throws a
  \<open>TypeError\<close> on \<open>undefined\<close> and \<open>null\<close>, reads an own property of an object, and is
  \<open>undefined\<close> on primitives and arrays, which have none of these properties.
\<close>

fun prop_get :: "jsval \<Rightarrow> string \<Rightarrow> jsval + jsval" where
  "prop_get JUndefined p = Inl (TypeError (''Cannot read property '' @ p @ '' of undefined''))"
| "prop_get JNull p = Inl (TypeError (''Cannot read property '' @ p @ '' of null''))"
| "prop_get (JObj kvs) p = Inr (case map_of kvs p of Some v \<Rightarrow> v | None \<Rightarrow> JUndefined)"
| "prop_get (JErr n m) p =
     Inr (if p = ''message'' then JStr m else if p = ''name'' then JStr n else JUndefined)"
| "prop_get v p = Inr JUndefined"

text \<open>lodash \<open>get(object, path)\<close> with a one-segment path: \<open>undefined\<close> instead of a throw.\<close>

definition lodash_get :: "jsval \<Rightarrow> string \<Rightarrow> jsval" where
  "lodash_get v p = (case prop_get v p of Inl e \<Rightarrow> JUndefined | Inr x \<Rightarrow> x)"

text \<open>
  Member access on a value that is an object whatever the input (the request object,
  the object \<open>getSchemataArgs\<close> builds): the property, or \<open>undefined\<close> when it is absent.
\<close>

definition js_member :: "jsval \<Rightarrow> string \<Rightarrow> jsval" where
  "js_member object p = (case object of JObj kvs \<Rightarrow> (case map_of kvs p of Some v \<Rightarrow> v | None \<Rightarrow> JUndefined) | _ \<Rightarrow> JUndefined)"

text \<open>Decimal numerals: the keys of an array's elements, and JSON numbers.\<close>

definition digit_char :: "nat \<Rightarrow> char" where
  "digit_char d = ''0123456789abcdef'' ! d"

fun show_nat :: "nat \<Rightarrow> string" where
  "show_nat n =
     (if n < 10 then [digit_char n] else show_nat (n div 10) @ [digit_char (n mod 10)])"

declare show_nat.simps [simp del]

definition show_int :: "int \<Rightarrow> string" where
  "show_int i = (if i < 0 then CHR ''-'' # show_nat (nat (- i)) else show_nat (nat i))"

text \<open>
  lodash \<open>forOwn(object, iteratee)\<close> calls the iteratee on every own enumerable
  string-keyed property, in enumeration order; \<open>forOwn_entries\<close> is the list of
  (name, value) pairs it visits. Arrays and strings are array-like: their elements are
  visited under their indices.
\<close>

fun forOwn_entries :: "jsval \<Rightarrow> (string \<times> jsval) list" where
  "forOwn_entries (JObj kvs) = kvs"
| "forOwn_entries (JArr xs) = map (\<lambda>i. (show_nat i, xs ! i)) [0..<length xs]"
| "forOwn_entries (JStr s) = map (\<lambda>i. (show_nat i, JStr [s ! i])) [0..<length s]"
| "forOwn_entries v = []"

section \<open>JSON.stringify\<close>

text \<open>
  \<open>JSON.stringify\<close> on the values above: \<open>undefined\<close> at the top gives \<open>undefined\<close>
  (not a string); inside an array it is written \<open>null\<close>; a property whose value is
  \<open>undefined\<close> is left out; an \<open>Error\<close> has no enumerable property and is written
  \<open>{}\<close>.
\<close>

definition json_escape :: "char \<Rightarrow> string" where
  "json_escape c =
     (if c = CHR 0x22 then [CHR 0x5C, CHR 0x22]
      else if c = CHR 0x5C then [CHR 0x5C, CHR 0x5C]
      else if c = CHR 0x08 then [CHR 0x5C, CHR ''b'']
      else if c = CHR 0x0C then [CHR 0x5C, CHR ''f'']
      else if c = CHR 0x0A then [CHR 0x5C, CHR ''n'']
      else if c = CHR 0x0D then [CHR 0x5C, CHR ''r'']
      else if c = CHR 0x09 then [CHR 0x5C, CHR ''t'']
      else if of_char c < (32::nat)
        then [CHR 0x5C, CHR ''u'', CHR ''0'', CHR ''0'',
              digit_char (of_char c div 16), digit_char (of_char c mod 16)]
      else [c])"

definition json_quote :: "string \<Rightarrow> string" where
  "json_quote s = CHR 0x22 # concat (map json_escape s) @ [CHR 0x22]"

fun join_commas :: "string list \<Rightarrow> string" where
  "join_commas [] = []"
| "join_commas [x] = x"
| "join_commas (x # y # ys) = x @ CHR '','' # join_commas (y # ys)"

fun JSON_ser :: "jsval \<Rightarrow> string"
  and JSON_ser_elems :: "jsval list \<Rightarrow> string list"
  and JSON_ser_members :: "(string \<times> jsval) list \<Rightarrow> string list" where
  "JSON_ser JUndefined = ''null''"
| "JSON_ser JNull = ''null''"
| "JSON_ser (JBool b) = (if b then ''true'' else ''false'')"
| "JSON_ser (JNum n) = show_int n"
| "JSON_ser (JStr s) = json_quote s"
| "JSON_ser (JArr xs) = CHR ''['' # join_commas (JSON_ser_elems xs) @ '']''"
| "JSON_ser (JObj kvs) = CHR ''{'' # join_commas (JSON_ser_members kvs) @ ''}''"
| "JSON_ser (JErr n m) = ''{}''"
| "JSON_ser_elems [] = []"
| "JSON_ser_elems (x # xs) = JSON_ser x # JSON_ser_elems xs"
| "JSON_ser_members [] = []"
| "JSON_ser_members ((k, v) # kvs) =
     (if v = JUndefined then JSON_ser_members kvs
      else (json_quote k @ CHR '':'' # JSON_ser v) # JSON_ser_members kvs)"

definition JSON_stringify :: "jsval \<Rightarrow> jsval" where
  "JSON_stringify v = (if v = JUndefined then JUndefined else JStr (JSON_ser v))"

section \<open>JSON.parse\<close>

text \<open>
  The decoder the test suite applies to the body it reads back
  (\<open>JSON.parse(send.getCall(0).args[0])\<close>), for the JSON texts of the values above:
  integers without a leading zero, strings with the JSON escapes (a four-digit
  hexadecimal escape of a character of the model, below 256), arrays and objects,
  without insignificant whitespace. The recursion on the nesting is bounded by the length of the text.
  \<open>json_norm v\<close> is the value a text written by \<open>JSON.stringify\<close> for \<open>v\<close> stands for.
\<close>

definition is_digit :: "char \<Rightarrow> bool" where
  "is_digit c \<longleftrightarrow> 48 \<le> (of_char c :: nat) \<and> of_char c \<le> (57 :: nat)"

definition digits_value :: "string \<Rightarrow> nat" where
  "digits_value ds = foldl (\<lambda>a c. 10 * a + (of_char c - 48)) 0 ds"

definition hex_value :: "char \<Rightarrow> nat option" where
  "hex_value c =
     (let n = of_char c :: nat
      in if 48 \<le> n \<and> n \<le> 57 then Some (n - 48)
         else if 97 \<le> n \<and> n \<le> 102 then Some (n - 87)
         else if 65 \<le> n \<and> n \<le> 70 then Some (n - 55)
         else None)"

definition unescape :: "char \<Rightarrow> char option" where
  "unescape e =
     (if e = CHR 0x22 then Some (CHR 0x22)
      else if e = CHR 0x5C then Some (CHR 0x5C)
      else if e = CHR ''/'' then Some (CHR ''/'')
      else if e = CHR ''b'' then Some (CHR 0x08)
      else if e = CHR ''f'' then Some (CHR 0x0C)
      else if e = CHR ''n'' then Some (CHR 0x0A)
      else if e = CHR ''r'' then Some (CHR 0x0D)
      else if e = CHR ''t'' then Some (CHR 0x09)
      else None)"

fun parse_chars :: "string \<Rightarrow> (string \<times> string) option" where
  "parse_chars [] = None"
| "parse_chars (c # cs) =
     (if c = CHR 0x22 then Some ([], cs)
      else if c = CHR 0x5C then
        (case cs of
           [] \<Rightarrow> None
         | e # cs' \<Rightarrow>
             (if e = CHR ''u'' then
                (case cs' of
                   h1 # h2 # h3 # h4 # cs'' \<Rightarrow>
                     (case (hex_value h1, hex_value h2, hex_value h3, hex_value h4) of
                        (Some a, Some b, Some x, Some y) \<Rightarrow>
                          (if a = 0 \<and> b = 0
                           then map_option (\<lambda>(str, rest). (char_of (16 * x + y) # str, rest)) (parse_chars cs'')
                           else None)
                      | _ \<Rightarrow> None)
                 | _ \<Rightarrow> None)
              else
                (case unescape e of
                   None \<Rightarrow> None
                 | Some x \<Rightarrow> map_option (\<lambda>(str, rest). (x # str, rest)) (parse_chars cs'))))
      else if of_char c < (32 :: nat) then None
      else map_option (\<lambda>(str, rest). (c # str, rest)) (parse_chars cs))"

definition parse_digits :: "string \<Rightarrow> (nat \<times> string) option" where
  "parse_digits s =
     (let ds = takeWhile is_digit s
      in if ds = [] \<or> (hd ds = CHR ''0'' \<and> tl ds \<noteq> []) then None
         else Some (digits_value ds, dropWhile is_digit s))"

definition parse_number :: "string \<Rightarrow> (int \<times> string) option" where
  "parse_number s =
     (case s of
        [] \<Rightarrow> None
      | c # cs \<Rightarrow>
          (if c = CHR ''-'' then map_option (\<lambda>(n, rest). (- int n, rest)) (parse_digits cs)
           else map_option (\<lambda>(n, rest). (int n, rest)) (parse_digits s)))"

definition parse_literal :: "string \<Rightarrow> jsval \<Rightarrow> string \<Rightarrow> (jsval \<times> string) option" where
  "parse_literal word v s =
     (if take (length word) s = word then Some (v, drop (length word) s) else None)"

fun parse_value :: "nat \<Rightarrow> string \<Rightarrow> (jsval \<times> string) option"
  and parse_elements :: "nat \<Rightarrow> string \<Rightarrow> (jsval list \<times> string) option"
  and parse_members :: "nat \<Rightarrow> string \<Rightarrow> ((string \<times> jsval) list \<times> string) option" where
  "parse_value 0 s = None"
| "parse_value (Suc n) s =
     (case s of
        [] \<Rightarrow> None
      | c # cs \<Rightarrow>
          (if c = CHR ''n'' then parse_literal ''null'' JNull s
           else if c = CHR ''t'' then parse_literal ''true'' (JBool True) s
           else if c = CHR ''f'' then parse_literal ''false'' (JBool False) s
           else if c = CHR 0x22 then map_option (\<lambda>(str, rest). (JStr str, rest)) (parse_chars cs)
           else if c = CHR ''['' then
             (case cs of
                [] \<Rightarrow> None
              | d # ds \<Rightarrow>
                  (if d = CHR '']'' then Some (JArr [], ds)
                   else map_option (\<lambda>(xs, rest). (JArr xs, rest)) (parse_elements n cs)))
           else if c = CHR ''{'' then
             (case cs of
                [] \<Rightarrow> None
              | d # ds \<Rightarrow>
                  (if d = CHR ''}'' then Some (JObj [], ds)
                   else map_option (\<lambda>(kvs, rest). (JObj kvs, rest)) (parse_members n cs)))
           else map_option (\<lambda>(i, rest). (JNum i, rest)) (parse_number s)))"
| "parse_elements 0 s = None"
| "parse_elements (Suc n) s =
     (case parse_value n s of
        None \<Rightarrow> None
      | Some (v, rest) \<Rightarrow>
          (case rest of
             [] \<Rightarrow> None
           | c # cs \<Rightarrow>
               (if c = CHR '','' then map_option (\<lambda>(vs, r). (v # vs, r)) (parse_elements n cs)
                else if c = CHR '']'' then Some ([v], cs)
                else None)))"
| "parse_members 0 s = None"
| "parse_members (Suc n) s =
     (case s of
        [] \<Rightarrow> None
      | q # cs \<Rightarrow>
          (if q \<noteq> CHR 0x22 then None
           else
             (case parse_chars cs of
                None \<Rightarrow> None
              | Some (k, rest) \<Rightarrow>
                  (case rest of
                     [] \<Rightarrow> None
                   | c # cs' \<Rightarrow>
                       (if c \<noteq> CHR '':'' then None
                        else
                          (case parse_value n cs' of
                             None \<Rightarrow> None
                           | Some (v, rest') \<Rightarrow>
                               (case rest' of
                                  [] \<Rightarrow> None
                                | d # ds \<Rightarrow>
                                    (if d = CHR '','' then map_option (\<lambda>(kvs, r). ((k, v) # kvs, r)) (parse_members n ds)
                                     else if d = CHR ''}'' then Some ([(k, v)], ds)
                                     else None))))))))"

definition JSON_parse :: "string \<Rightarrow> jsval option" where
  "JSON_parse s =
     (case parse_value (Suc (length s)) s of
        Some (v, rest) \<Rightarrow> (if rest = [] then Some v else None)
      | None \<Rightarrow> None)"

fun json_norm :: "jsval \<Rightarrow> jsval"
  and norm_elements :: "jsval list \<Rightarrow> jsval list"
  and norm_members :: "(string \<times> jsval) list \<Rightarrow> (string \<times> jsval) list" where
  "json_norm JUndefined = JNull"
| "json_norm JNull = JNull"
| "json_norm (JBool b) = JBool b"
| "json_norm (JNum n) = JNum n"
| "json_norm (JStr s) = JStr s"
| "json_norm (JArr xs) = JArr (norm_elements xs)"
| "json_norm (JObj kvs) = JObj (norm_members kvs)"
| "json_norm (JErr n m) = JObj []"
| "norm_elements [] = []"
| "norm_elements (x # xs) = json_norm x # norm_elements xs"
| "norm_members [] = []"
| "norm_members ((k, v) # kvs) =
     (if v = JUndefined then norm_members kvs else (k, json_norm v) # norm_members kvs)"
text \<open>A number ends where the rest of the text does not go on with a digit.\<close>

definition delim :: "string \<Rightarrow> bool" where
  "delim rest \<longleftrightarrow> (case rest of [] \<Rightarrow> True | c # cs \<Rightarrow> \<not> is_digit c)"

section \<open>Effects: the calls a request makes, and thrown values\<close>

text \<open>
  What a request does is observed as the list of calls it makes, in order: the calls on
  the response object (the test suite observes the same calls through its stubs for
  \<open>status\<close> and \<open>send\<close>), the schema validations, the invocation of the handler, the
  invocations of the service factories, and the handler's reads of service properties
  with what each read gave. \<open>world\<close> is whatever state the
  service factories keep between calls (they are arbitrary functions).
  A computation takes the state and returns the new state with either a thrown value
  (\<open>Inl\<close>) or a result (\<open>Inr\<close>).
\<close>

datatype call =
    ValidateCall string jsval
  | ActionCall
  | ServiceRead string "jsval + jsval"
  | FactoryCall string
  | ResCookie string jsval
  | ResHeader string jsval
  | ResStatus jsval
  | ResSend jsval

record 'w state =
  calls :: "call list"
  world :: 'w

type_synonym ('w, 'a) js = "'w state \<Rightarrow> (jsval + 'a) \<times> 'w state"

definition js_return :: "'a \<Rightarrow> ('w, 'a) js" where
  "js_return x s = (Inr x, s)"

definition js_throw :: "jsval \<Rightarrow> ('w, 'a) js" where
  "js_throw e s = (Inl e, s)"

definition js_bind :: "('w, 'a) js \<Rightarrow> ('a \<Rightarrow> ('w, 'b) js) \<Rightarrow> ('w, 'b) js" where
  "js_bind m f s = (case m s of (Inl e, s') \<Rightarrow> (Inl e, s') | (Inr x, s') \<Rightarrow> f x s')"

definition js_catch :: "('w, 'a) js \<Rightarrow> (jsval \<Rightarrow> ('w, 'a) js) \<Rightarrow> ('w, 'a) js" where
  "js_catch m h s = (case m s of (Inl e, s') \<Rightarrow> h e s' | (Inr x, s') \<Rightarrow> (Inr x, s'))"

definition js_lift :: "jsval + 'a \<Rightarrow> ('w, 'a) js" where
  "js_lift r s = (r, s)"

definition log_call :: "call \<Rightarrow> ('w, unit) js" where
  "log_call c s = (Inr (), s\<lparr>calls := calls s @ [c]\<rparr>)"

text \<open>\<open>forOwn\<close> as a loop over the visited properties; the iteratee gets (value, name).\<close>

fun js_each :: "(string \<times> jsval) list \<Rightarrow> (jsval \<Rightarrow> string \<Rightarrow> ('w, unit) js) \<Rightarrow> ('w, unit) js" where
  "js_each [] f = js_return ()"
| "js_each ((name, v) # kvs) f = js_bind (f v name) (\<lambda>_. js_each kvs f)"

definition forOwn :: "jsval \<Rightarrow> (jsval \<Rightarrow> string \<Rightarrow> ('w, unit) js) \<Rightarrow> ('w, unit) js" where
  "forOwn object iteratee = js_each (forOwn_entries object) iteratee"

text \<open>The response handle of the request, and the four methods the source calls on it.\<close>

datatype Response = TheResponse

definition res_cookie :: "Response \<Rightarrow> string \<Rightarrow> jsval \<Rightarrow> ('w, unit) js" where
  "res_cookie res name v = log_call (ResCookie name v)"

definition res_header :: "Response \<Rightarrow> string \<Rightarrow> jsval \<Rightarrow> ('w, unit) js" where
  "res_header res name v = log_call (ResHeader name v)"

definition res_status :: "Response \<Rightarrow> jsval \<Rightarrow> ('w, unit) js" where
  "res_status res code = log_call (ResStatus code)"

definition res_send :: "Response \<Rightarrow> jsval \<Rightarrow> ('w, unit) js" where
  "res_send res b = log_call (ResSend b)"

section \<open>Results\<close>

definition OK :: int where
  "OK = 200"

definition BAD_REQUEST :: int where
  "BAD_REQUEST = 400"

text \<open>
  \<open>YxpSuccessOptions\<close> is \<open>Partial\<close>: each field is present or absent. At run time the
  options, like the results themselves, are plain objects; \<open>options_js\<close> is that object.
\<close>

record YxpSuccessOptions =
  mimeType :: "string option"
  headers :: "(string \<times> string) list option"
  cookies :: "(string \<times> string) list option"

definition no_options :: YxpSuccessOptions where
  "no_options = \<lparr>mimeType = None, headers = None, cookies = None\<rparr>"

definition string_map_js :: "(string \<times> string) list \<Rightarrow> jsval" where
  "string_map_js m = JObj (map (\<lambda>(k, v). (k, JStr v)) m)"

definition options_js :: "YxpSuccessOptions \<Rightarrow> jsval" where
  "options_js opts = JObj
     ((case mimeType opts of None \<Rightarrow> [] | Some m \<Rightarrow> [(''mimeType'', JStr m)]) @
      (case headers opts of None \<Rightarrow> [] | Some h \<Rightarrow> [(''headers'', string_map_js h)]) @
      (case cookies opts of None \<Rightarrow> [] | Some c \<Rightarrow> [(''cookies'', string_map_js c)]))"

text \<open>An omitted argument with a default is \<open>None\<close>.\<close>

definition yxpError :: "int \<Rightarrow> string option \<Rightarrow> jsval" where
  "yxpError statusCode b = JObj
     [(''type'', JStr ''YxpError''),
      (''statusCode'', JNum statusCode),
      (''body'', JStr (case b of None \<Rightarrow> [] | Some m \<Rightarrow> m))]"

text \<open>
  The body is typed \<open>string\<close> in the source, but \<open>json\<close> passes what \<open>JSON.stringify\<close>
  returns, which is \<open>undefined\<close> for \<open>undefined\<close>: the body is a \<open>jsval\<close> here.
\<close>

definition yxpSuccess :: "jsval \<Rightarrow> int option \<Rightarrow> YxpSuccessOptions option \<Rightarrow> jsval" where
  "yxpSuccess b statusCode options = JObj
     [(''type'', JStr ''YxpSuccess''),
      (''body'', b),
      (''statusCode'', JNum (case statusCode of None \<Rightarrow> OK | Some c \<Rightarrow> c)),
      (''options'', options_js (case options of None \<Rightarrow> no_options | Some opts \<Rightarrow> opts))]"

definition paramError :: "string \<Rightarrow> jsval" where
  "paramError message = yxpError BAD_REQUEST (Some message)"

text \<open>\<open>{ mimeType, ...options }\<close>: a \<open>mimeType\<close> in \<open>options\<close> overrides the argument.\<close>

definition text_yxp :: "jsval \<Rightarrow> string \<Rightarrow> YxpSuccessOptions option \<Rightarrow> jsval" where
  "text_yxp results mime options =
     (let opts = (case options of None \<Rightarrow> no_options | Some given \<Rightarrow> given)
      in yxpSuccess results (Some OK)
           (Some (opts\<lparr>mimeType := (case mimeType opts of None \<Rightarrow> Some mime | Some m \<Rightarrow> Some m)\<rparr>)))"

definition html :: "jsval \<Rightarrow> YxpSuccessOptions option \<Rightarrow> jsval" where
  "html results options = text_yxp results ''text/html'' options"

definition json :: "jsval \<Rightarrow> YxpSuccessOptions option \<Rightarrow> jsval" where
  "json results options = text_yxp (JSON_stringify results) ''application/json'' options"

definition ResultTypes :: "jsval set" where
  "ResultTypes = {JStr ''YxpSuccess'', JStr ''YxpError''}"

definition isYxpResults :: "jsval \<Rightarrow> bool" where
  "isYxpResults results = (lodash_get results ''type'' \<in> ResultTypes)"

definition isYxpSuccess :: "jsval \<Rightarrow> jsval + bool" where
  "isYxpSuccess results =
     (case prop_get results ''type'' of Inl e \<Rightarrow> Inl e | Inr t \<Rightarrow> Inr (t = JStr ''YxpSuccess''))"

definition sendResults :: "Response \<Rightarrow> jsval \<Rightarrow> ('w, unit) js" where
  "sendResults res results =
     js_bind (js_lift (isYxpSuccess results)) (\<lambda>success.
     js_bind
       (if success then
          js_bind (js_lift (prop_get results ''options'')) (\<lambda>opts.
          js_bind (js_lift (prop_get opts ''cookies'')) (\<lambda>cs.
          js_bind (forOwn (js_or cs (JObj [])) (\<lambda>v name. res_cookie res name v)) (\<lambda>_.
          js_bind (js_lift (prop_get results ''options'')) (\<lambda>opts'.
          js_bind (js_lift (prop_get opts' ''headers'')) (\<lambda>hs.
          forOwn (js_or hs (JObj [])) (\<lambda>v name. res_header res name v))))))
        else js_return ()) (\<lambda>_.
     js_bind (js_lift (prop_get results ''statusCode'')) (\<lambda>code.
     js_bind (res_status res code) (\<lambda>_.
     js_bind (js_lift (prop_get results ''body'')) (\<lambda>b.
     res_send res b)))))"

section \<open>The schema library\<close>

text \<open>
  Schemas come from the external library \<open>yup\<close>. The source uses two capabilities of a
  schema: \<open>validate(raw)\<close>, which resolves to the typed value or rejects with a
  \<open>ValidationError\<close> carrying a message (\<open>Inl message\<close>), and
  \<open>cast(raw, {strict: true, stripUnknown: true})\<close>, which returns the cast value or throws
  (\<open>Inl\<close> the thrown value). A schema is taken as the pair of these two functions, so
  that a statement about every schema is about every behaviour the library could have.
\<close>

record Schema =
  validate :: "jsval \<Rightarrow> string + jsval"
  cast_stripUnknown :: "jsval \<Rightarrow> jsval + jsval"

definition own :: "(string \<times> jsval) list \<Rightarrow> string \<Rightarrow> jsval" where
  "own kvs k = (case map_of kvs k of Some v \<Rightarrow> v | None \<Rightarrow> JUndefined)"

fun cast_fields :: "(string \<times> Schema) list \<Rightarrow> (string \<times> jsval) list \<Rightarrow> jsval + (string \<times> jsval) list" where
  "cast_fields [] kvs = Inr []"
| "cast_fields ((k, sch) # fs) kvs =
     (case cast_stripUnknown sch (own kvs k) of
        Inl e \<Rightarrow> Inl e
      | Inr v \<Rightarrow>
          (case cast_fields fs kvs of
             Inl e \<Rightarrow> Inl e
           | Inr r \<Rightarrow> Inr (if v = JUndefined then r else (k, v) # r)))"

fun validate_fields :: "(string \<times> Schema) list \<Rightarrow> (string \<times> jsval) list \<Rightarrow> string + (string \<times> jsval) list" where
  "validate_fields [] kvs = Inr []"
| "validate_fields ((k, sch) # fs) kvs =
     (case validate sch (own kvs k) of
        Inl msg \<Rightarrow> Inl (k @ '' '' @ msg)
      | Inr v \<Rightarrow>
          (case validate_fields fs kvs of
             Inl msg \<Rightarrow> Inl msg
           | Inr r \<Rightarrow> Inr (if v = JUndefined then r else (k, v) # r)))"

text \<open>
  Modelled from the spec: the object shape \<open>yup.object(fields)\<close> of the external schema
  library. Validation fails on a type mismatch or on the first declared field whose own
  shape rejects its value (a missing field is \<open>undefined\<close>), and keeps undeclared fields.
  The cast with unknown-field stripping casts every declared field through its own shape
  and drops every undeclared field; it throws a \<open>TypeError\<close> on a value that is not an
  object. The default of an object shape is the object of its fields' defaults, and
  \<open>undefined\<close> when it declares no field. (The library also parses a string as JSON before
  casting it to an object; that coercion is not modelled: a string is a type mismatch.)
\<close>

definition yup_object :: "(string \<times> Schema) list \<Rightarrow> Schema" where
  "yup_object flds =
     \<lparr>validate = (\<lambda>raw.
        case raw of
          JUndefined \<Rightarrow>
            (if flds = [] then Inr JUndefined
             else (case validate_fields flds [] of Inl msg \<Rightarrow> Inl msg | Inr r \<Rightarrow> Inr (JObj r)))
        | JObj kvs \<Rightarrow>
            (case validate_fields flds kvs of
               Inl msg \<Rightarrow> Inl msg
             | Inr r \<Rightarrow> Inr (JObj (r @ filter (\<lambda>(k, v). k \<notin> fst ` set flds) kvs)))
        | _ \<Rightarrow> Inl ''this must be an object''),
      cast_stripUnknown = (\<lambda>raw.
        case raw of
          JUndefined \<Rightarrow>
            (if flds = [] then Inr JUndefined
             else (case cast_fields flds [] of Inl e \<Rightarrow> Inl e | Inr r \<Rightarrow> Inr (JObj r)))
        | JObj kvs \<Rightarrow>
            (case cast_fields flds kvs of Inl e \<Rightarrow> Inl e | Inr r \<Rightarrow> Inr (JObj r))
        | _ \<Rightarrow> Inl (TypeError ''The value could not be cast to a value that satisfies the schema type: object''))\<rparr>"

text \<open>
  Modelled from the spec: the leaf shapes \<open>yup.number().integer().required()\<close>,
  \<open>yup.string().required()\<close> and \<open>yup.boolean()\<close> of the demonstration application and
  the test suite. A numeric string is converted to the number; a missing value fails the
  validation of a required shape; the cast leaves \<open>undefined\<close> alone and throws on a type
  mismatch. The object shape puts the field's name before the message.
\<close>

definition read_nat :: "string \<Rightarrow> nat option" where
  "read_nat s =
     (if s \<noteq> [] \<and> list_all (\<lambda>c. 48 \<le> (of_char c :: nat) \<and> of_char c \<le> (57 :: nat)) s
      then Some (foldl (\<lambda>a c. 10 * a + (of_char c - 48)) 0 s) else None)"

definition read_int :: "string \<Rightarrow> int option" where
  "read_int s =
     (case s of
        [] \<Rightarrow> None
      | c # cs \<Rightarrow>
          (if c = CHR ''-'' then map_option (\<lambda>n. - int n) (read_nat cs)
           else map_option int (read_nat s)))"

definition to_integer :: "jsval \<Rightarrow> int option" where
  "to_integer v = (case v of JNum n \<Rightarrow> Some n | JStr s \<Rightarrow> read_int s | _ \<Rightarrow> None)"

definition yup_integer_required :: Schema where
  "yup_integer_required =
     \<lparr>validate = (\<lambda>raw.
        if raw = JUndefined \<or> raw = JNull then Inl ''is a required field''
        else (case to_integer raw of
                Some n \<Rightarrow> Inr (JNum n)
              | None \<Rightarrow> Inl ''must be a number'')),
      cast_stripUnknown = (\<lambda>raw.
        if raw = JUndefined then Inr JUndefined
        else (case to_integer raw of
                Some n \<Rightarrow> Inr (JNum n)
              | None \<Rightarrow> Inl (TypeError ''The value could not be cast to a value that satisfies the schema type: number'')))\<rparr>"

definition yup_string_required :: Schema where
  "yup_string_required =
     \<lparr>validate = (\<lambda>raw.
        if raw = JUndefined \<or> raw = JNull \<or> raw = JStr [] then Inl ''is a required field''
        else (case raw of JStr t \<Rightarrow> Inr raw | _ \<Rightarrow> Inl ''must be a string'')),
      cast_stripUnknown = (\<lambda>raw.
        if raw = JUndefined then Inr JUndefined
        else (case raw of
                JStr t \<Rightarrow> Inr raw
              | _ \<Rightarrow> Inl (TypeError ''The value could not be cast to a value that satisfies the schema type: string'')))\<rparr>"

definition yup_boolean :: Schema where
  "yup_boolean =
     \<lparr>validate = (\<lambda>raw.
        if raw = JUndefined then Inr JUndefined
        else (case raw of JBool t \<Rightarrow> Inr raw | _ \<Rightarrow> Inl ''must be a boolean'')),
      cast_stripUnknown = (\<lambda>raw.
        if raw = JUndefined then Inr JUndefined
        else (case raw of
                JBool t \<Rightarrow> Inr raw
              | _ \<Rightarrow> Inl (TypeError ''The value could not be cast to a value that satisfies the schema type: boolean'')))\<rparr>"

definition BlankReturn :: Schema where
  "BlankReturn = yup_object []"

definition sendUnknownResponse :: "Response \<Rightarrow> jsval \<Rightarrow> Schema \<Rightarrow> ('w, unit) js" where
  "sendUnknownResponse res results formatter =
     (if isYxpResults results then sendResults res results
      else js_bind (js_lift (cast_stripUnknown formatter results)) (\<lambda>r.
           sendResults res (json r None)))"

section \<open>The endpoint\<close>

text \<open>
  The request is the framework's request object; the source reads its \<open>params\<close>,
  \<open>query\<close> and \<open>body\<close> properties (absent properties are \<open>undefined\<close>, as in the test
  suite's requests).
\<close>

type_synonym Request = jsval

record HttpArgs =
  req :: Request
  res :: Response

record EndpointArgs = HttpArgs +
  params :: jsval
  query :: jsval
  body :: jsval

record Schemata =
  params_schema :: "Schema option"
  query_schema :: "Schema option"
  body_schema :: "Schema option"

definition no_schemata :: Schemata where
  "no_schemata = \<lparr>params_schema = None, query_schema = None, body_schema = None\<rparr>"

text \<open>
  \<open>(await schema?.validate(raw)) || {}\<close> for one category: without a schema nothing is
  called and the value is \<open>undefined\<close>; a rejection is thrown by \<open>await\<close>.
\<close>

definition validate_category :: "string \<Rightarrow> Schema option \<Rightarrow> jsval \<Rightarrow> 'w state \<Rightarrow> (string + jsval) \<times> 'w state" where
  "validate_category category schema raw s =
     (case schema of
        None \<Rightarrow> (Inr (js_or JUndefined (JObj [])), s)
      | Some sch \<Rightarrow>
          (case validate sch raw of
             Inl message \<Rightarrow> (Inl message, s\<lparr>calls := calls s @ [ValidateCall category raw]\<rparr>)
           | Inr v \<Rightarrow> (Inr (js_or v (JObj [])), s\<lparr>calls := calls s @ [ValidateCall category raw]\<rparr>)))"

text \<open>
  The result is the union \<open>YxpError | SchemaArgs\<close>, told apart at run time by
  \<open>isYxpResults\<close>: a plain object either way. The \<open>catch\<close> turns a rejection into
  \<open>paramError(e.message)\<close>.
\<close>

definition getSchemataArgs :: "Request \<Rightarrow> Schemata \<Rightarrow> 'w state \<Rightarrow> jsval \<times> 'w state" where
  "getSchemataArgs request schemata s =
     (case validate_category ''params'' (params_schema schemata) (js_member request ''params'') s of
        (Inl message, s1) \<Rightarrow> (paramError message, s1)
      | (Inr p, s1) \<Rightarrow>
     (case validate_category ''query'' (query_schema schemata) (js_member request ''query'') s1 of
        (Inl message, s2) \<Rightarrow> (paramError message, s2)
      | (Inr q, s2) \<Rightarrow>
     (case validate_category ''body'' (body_schema schemata) (js_member request ''body'') s2 of
        (Inl message, s3) \<Rightarrow> (paramError message, s3)
      | (Inr b, s3) \<Rightarrow> (JObj [(''params'', p), (''query'', q), (''body'', b)], s3))))"

subsection \<open>Services\<close>

text \<open>
  A service factory is an arbitrary function of the request/response pair: it may keep
  state (\<open>world\<close>) and may throw. lodash \<open>memoize\<close> stores the result of the first call
  that returns; a call that throws stores nothing.
\<close>

type_synonym 'w ServiceFactory = "HttpArgs \<Rightarrow> 'w \<Rightarrow> (jsval + jsval) \<times> 'w"

type_synonym 'w ServiceFactoryArgs = "string \<Rightarrow> 'w ServiceFactory option"

record 'w memoized =
  func :: "('w, jsval) js"
  cache :: "jsval option"

definition memoize :: "('w, jsval) js \<Rightarrow> 'w memoized" where
  "memoize f = \<lparr>func = f, cache = None\<rparr>"

definition call_memoized :: "'w memoized \<Rightarrow> 'w state \<Rightarrow> (jsval + jsval) \<times> 'w memoized \<times> 'w state" where
  "call_memoized m s =
     (case cache m of
        Some v \<Rightarrow> (Inr v, m, s)
      | None \<Rightarrow>
          (case func m s of
             (Inl e, s') \<Rightarrow> (Inl e, m, s')
           | (Inr v, s') \<Rightarrow> (Inr v, m\<lparr>cache := Some v\<rparr>, s')))"

text \<open>The thunk \<open>() => factory(httpArgs)\<close> of the service \<open>name\<close>.\<close>

definition call_factory :: "string \<Rightarrow> 'w ServiceFactory \<Rightarrow> HttpArgs \<Rightarrow> ('w, jsval) js" where
  "call_factory name factory httpArgs s =
     (case factory httpArgs (world s) of
        (r, w') \<Rightarrow> (r, s\<lparr>calls := calls s @ [FactoryCall name], world := w'\<rparr>))"

text \<open>
  The object the handler receives: the validated inputs and the request/response pair
  as data, and one memoized getter per declared service. Service names are taken to be
  different from the five data names (the type \<open>S & HttpArgs & SchemaArgs\<close> of the
  source).
\<close>

record 'w Services =
  args :: EndpointArgs
  getters :: "string \<Rightarrow> 'w memoized option"

definition pick_req_res :: "EndpointArgs \<Rightarrow> HttpArgs" where
  "pick_req_res a = \<lparr>req = req a, res = res a\<rparr>"

definition addServices :: "'w ServiceFactoryArgs \<Rightarrow> EndpointArgs \<Rightarrow> 'w Services" where
  "addServices serviceFactoryArgs services =
     (let httpArgs = pick_req_res services
      in \<lparr>args = services,
          getters = (\<lambda>name. case serviceFactoryArgs name of
                               None \<Rightarrow> None
                             | Some factory \<Rightarrow> Some (memoize (call_factory name factory httpArgs)))\<rparr>)"

text \<open>
  Reading the property \<open>name\<close> of that object: a declared service runs its getter; any
  other name is no service (\<open>undefined\<close>).
\<close>

definition read_service :: "'w Services \<Rightarrow> string \<Rightarrow> 'w state \<Rightarrow> (jsval + jsval) \<times> 'w Services \<times> 'w state" where
  "read_service ctx name s =
     (case getters ctx name of
        None \<Rightarrow> (Inr JUndefined, ctx, s)
      | Some m \<Rightarrow>
          (case call_memoized m s of
             (r, m', s') \<Rightarrow>
               (r, ctx\<lparr>getters := (getters ctx)(name := Some m')\<rparr>,
                s'\<lparr>calls := calls s' @ [ServiceRead name r]\<rparr>)))"

subsection \<open>Handlers\<close>

text \<open>
  A handler is an arbitrary function of the object above. What it can do with the
  services is: read a service property and go on with what the read gave (the value, or
  the value the factory threw, which the handler may catch or rethrow), return a value,
  or throw one. The handler's data arguments are the \<open>EndpointArgs\<close>. A handler is
  synchronous, as the source types it, and calls of its own on the response are not
  modelled.
\<close>

datatype handler_run =
    Return jsval
  | Throw jsval
  | Read string "jsval + jsval \<Rightarrow> handler_run"

primrec run_handler :: "handler_run \<Rightarrow> 'w Services \<Rightarrow> 'w state \<Rightarrow> (jsval + jsval) \<times> 'w Services \<times> 'w state" where
  "run_handler (Return v) = (\<lambda>ctx s. (Inr v, ctx, s))"
| "run_handler (Throw e) = (\<lambda>ctx s. (Inl e, ctx, s))"
| "run_handler (Read name k) =
     (\<lambda>ctx s. case read_service ctx name s of (r, ctx', s') \<Rightarrow> run_handler (k r) ctx' s')"

type_synonym handler = "EndpointArgs \<Rightarrow> handler_run"

text \<open>The call \<open>action(services)\<close>.\<close>

definition call_action :: "handler \<Rightarrow> 'w Services \<Rightarrow> ('w, jsval) js" where
  "call_action action services s =
     (case run_handler (action (args services)) services (s\<lparr>calls := calls s @ [ActionCall]\<rparr>) of
        (r, ctx', s') \<Rightarrow> (r, s'))"

subsection \<open>The request function\<close>

text \<open>
  \<open>endpoint(action, schemata = {}, formatter = BlankReturn)\<close> returns the function that
  serves one request. \<open>Inl e\<close> is the rejection of the returned promise with \<open>e\<close>.
\<close>

definition endpoint :: "'w ServiceFactoryArgs \<Rightarrow> handler \<Rightarrow> Schemata option \<Rightarrow> Schema option \<Rightarrow> Request \<Rightarrow> Response \<Rightarrow> ('w, unit) js" where
  "endpoint serviceFactoryArgs action schemata_arg formatter_arg request response s =
     (let schemata = (case schemata_arg of None \<Rightarrow> no_schemata | Some given \<Rightarrow> given);
          formatter = (case formatter_arg of None \<Rightarrow> BlankReturn | Some given \<Rightarrow> given)
      in case getSchemataArgs request schemata s of
           (schemataArgs, s1) \<Rightarrow>
             if isYxpResults schemataArgs then sendResults response schemataArgs s1
             else
               js_catch
                 (let services = addServices serviceFactoryArgs
                        \<lparr>req = request, res = response,
                         params = js_member schemataArgs ''params'',
                         query = js_member schemataArgs ''query'',
                         body = js_member schemataArgs ''body''\<rparr>
                  in js_bind (call_action action services) (\<lambda>results.
                     sendUnknownResponse response results formatter))
                 (\<lambda>e. if isYxpResults e then sendResults response e else js_throw e)
                 s1)"

section \<open>Notions used in the statements\<close>

text \<open>The calls that apply the cookies and the headers of a Success's options.\<close>

definition cookie_calls :: "YxpSuccessOptions \<Rightarrow> call list" where
  "cookie_calls opts =
     (case cookies opts of None \<Rightarrow> [] | Some c \<Rightarrow> map (\<lambda>(name, v). ResCookie name (JStr v)) c)"

definition header_calls :: "YxpSuccessOptions \<Rightarrow> call list" where
  "header_calls opts =
     (case headers opts of None \<Rightarrow> [] | Some h \<Rightarrow> map (\<lambda>(name, v). ResHeader name (JStr v)) h)"

text \<open>
  What the handler of a request does, when the request reaches it: \<open>None\<close> when the
  input validation fails, and otherwise the value the call \<open>action(services)\<close> returns
  (\<open>Inr\<close>) or throws (\<open>Inl\<close>), with the state after the call.
\<close>

definition handler_outcome :: "'w ServiceFactoryArgs \<Rightarrow> handler \<Rightarrow> Schemata option \<Rightarrow> Request \<Rightarrow> Response \<Rightarrow> 'w state \<Rightarrow> ((jsval + jsval) \<times> 'w state) option" where
  "handler_outcome serviceFactoryArgs action schemata_arg request response s =
     (case getSchemataArgs request (case schemata_arg of None \<Rightarrow> no_schemata | Some given \<Rightarrow> given) s of
        (schemataArgs, s1) \<Rightarrow>
          if isYxpResults schemataArgs then None
          else Some (call_action action
                 (addServices serviceFactoryArgs
                    \<lparr>req = request, res = response,
                     params = js_member schemataArgs ''params'',
                     query = js_member schemataArgs ''query'',
                     body = js_member schemataArgs ''body''\<rparr>) s1))"

text \<open>
  Counting in a list of calls: the invocations of the factory of a service, the reads of
  the service that threw, and the values the other reads gave.
\<close>

fun is_factory_call :: "string \<Rightarrow> call \<Rightarrow> bool" where
  "is_factory_call name (FactoryCall n) = (n = name)"
| "is_factory_call name c = False"

fun is_failed_read :: "string \<Rightarrow> call \<Rightarrow> bool" where
  "is_failed_read name (ServiceRead n (Inl e)) = (n = name)"
| "is_failed_read name c = False"

fun read_value :: "string \<Rightarrow> call \<Rightarrow> jsval option" where
  "read_value name (ServiceRead n (Inr v)) = (if n = name then Some v else None)"
| "read_value name c = None"

definition factory_calls :: "string \<Rightarrow> call list \<Rightarrow> nat" where
  "factory_calls name cs = length (filter (is_factory_call name) cs)"

definition failed_reads :: "string \<Rightarrow> call list \<Rightarrow> nat" where
  "failed_reads name cs = length (filter (is_failed_read name) cs)"

fun read_values :: "string \<Rightarrow> call list \<Rightarrow> jsval list" where
  "read_values name [] = []"
| "read_values name (c # cs) =
     (case read_value name c of None \<Rightarrow> read_values name cs | Some v \<Rightarrow> v # read_values name cs)"

text \<open>
  Section 4.2 of the specification, in its own words: the categories are tried in order,
  a category without a schema is skipped, and the first rejection ends the validation.
  The result is the list of validations attempted and the message of the rejection
  (\<open>None\<close> when nothing is rejected).
\<close>

fun first_validation_failure :: "(string \<times> Schema option \<times> jsval) list \<Rightarrow> (call list \<times> string) option" where
  "first_validation_failure [] = None"
| "first_validation_failure ((category, None, raw) # rest) = first_validation_failure rest"
| "first_validation_failure ((category, Some sch, raw) # rest) =
     (case validate sch raw of
        Inl message \<Rightarrow> Some ([ValidateCall category raw], message)
      | Inr v \<Rightarrow> map_option (\<lambda>(cs, message). (ValidateCall category raw # cs, message))
                  (first_validation_failure rest))"

definition categories :: "Schemata \<Rightarrow> Request \<Rightarrow> (string \<times> Schema option \<times> jsval) list" where
  "categories schemata request =
     [(''params'', params_schema schemata, js_member request ''params''),
      (''query'', query_schema schemata, js_member request ''query''),
      (''body'', body_schema schemata, js_member request ''body'')]"

text \<open>
  The tally of one service over a list of calls, given the service's cache entry before
  and after them: with a cached value the factory is not called and every read gives
  that value; without one the factory is called once for every read that throws and
  once for the first read that returns, whose value is the entry afterwards.
\<close>

definition cached :: "'w Services \<Rightarrow> string \<Rightarrow> jsval option" where
  "cached ctx name = (case getters ctx name of None \<Rightarrow> None | Some m \<Rightarrow> cache m)"

definition tally :: "string \<Rightarrow> jsval option \<Rightarrow> call list \<Rightarrow> jsval option \<Rightarrow> bool" where
  "tally name before new after =
     (case before of
        Some v \<Rightarrow>
          factory_calls name new = 0 \<and> failed_reads name new = 0 \<and>
          set (read_values name new) \<subseteq> {v} \<and> after = Some v
      | None \<Rightarrow>
          factory_calls name new = failed_reads name new + (if read_values name new = [] then 0 else 1) \<and>
          (case after of
             None \<Rightarrow> read_values name new = []
           | Some v \<Rightarrow> read_values name new \<noteq> [] \<and> set (read_values name new) \<subseteq> {v}))"

definition quiet :: "string \<Rightarrow> call list \<Rightarrow> bool" where
  "quiet name cs \<longleftrightarrow> factory_calls name cs = 0 \<and> failed_reads name cs = 0 \<and> read_values name cs = []"

definition factories_bound :: "'w Services \<Rightarrow> bool" where
  "factories_bound ctx \<longleftrightarrow> (\<forall>n m. getters ctx n = Some m \<longrightarrow> (\<exists>f h. func m = call_factory n f h))"

definition quiet_js :: "string \<Rightarrow> ('w, 'a) js \<Rightarrow> bool" where
  "quiet_js name m \<longleftrightarrow> (\<forall>s r s'. m s = (r, s') \<longrightarrow> (\<exists>cs. calls s' = calls s @ cs \<and> quiet name cs))"

text \<open>
  For a request whose validations all pass: whether one category passes, the value the
  handler gets for it (the validated value, or the empty object when the category has
  no schema or the validated value is falsy), and the validations made.
\<close>

definition passes :: "Schema option \<Rightarrow> jsval \<Rightarrow> bool" where
  "passes schema raw =
     (case schema of None \<Rightarrow> True | Some sch \<Rightarrow> (case validate sch raw of Inl message \<Rightarrow> False | Inr v \<Rightarrow> True))"

definition validated :: "Schema option \<Rightarrow> jsval \<Rightarrow> jsval" where
  "validated schema raw =
     (case schema of
        None \<Rightarrow> JObj []
      | Some sch \<Rightarrow> (case validate sch raw of Inl message \<Rightarrow> JObj [] | Inr v \<Rightarrow> js_or v (JObj [])))"

fun attempted :: "(string \<times> Schema option \<times> jsval) list \<Rightarrow> call list" where
  "attempted [] = []"
| "attempted ((category, None, raw) # rest) = attempted rest"
| "attempted ((category, Some sch, raw) # rest) = ValidateCall category raw # attempted rest"

text \<open>
  A computation that only writes calls, the same ones whatever the state it starts in.
\<close>

definition logger :: "('w, 'a) js \<Rightarrow> bool" where
  "logger m \<longleftrightarrow> (\<exists>r cs. \<forall>s. m s = (r, s\<lparr>calls := calls s @ cs\<rparr>))"

text \<open>
  What an output shape declares: the fields of an object, each with the shape of its
  value, or nothing about a value (a leaf, or a part the shape leaves open). A value
  conforms to it when every object in it that the shape describes has declared fields
  only, at every depth; a property that is \<open>undefined\<close> is not a field (it is not
  transmitted), and a value that is not an object has no field. The contract of the
  external cast with unknown-field stripping towards the output shape: whatever it
  returns conforms.
\<close>

datatype shape =
    AnyValue
  | ObjectOf "(string \<times> shape) list"

fun conforms :: "jsval \<Rightarrow> shape \<Rightarrow> bool"
  and conforms_members :: "(string \<times> jsval) list \<Rightarrow> (string \<times> shape) list \<Rightarrow> bool" where
  "conforms (JObj kvs) (ObjectOf declared) = conforms_members kvs declared"
| "conforms v sh = True"
| "conforms_members [] declared = True"
| "conforms_members ((k, x) # kvs) declared =
     ((x = JUndefined \<or> (case map_of declared k of None \<Rightarrow> False | Some sh \<Rightarrow> conforms x sh))
      \<and> conforms_members kvs declared)"

definition strips_unknown :: "Schema \<Rightarrow> shape \<Rightarrow> bool" where
  "strips_unknown formatter sh \<longleftrightarrow>
     (\<forall>raw w. cast_stripUnknown formatter raw = Inr w \<longrightarrow> conforms w sh)"

subsection \<open>Inputs of the examples\<close>

text \<open>
  The shapes \<open>IdRequired\<close> of the test suite and \<open>UserResponse\<close> and \<open>IsMeResponse\<close> of
  the demonstration application, with what \<open>IsMeResponse\<close> declares; a binding layer
  without services; the demonstration's \<open>user\<close> service for a request that carries no
  valid session cookie (it throws \<open>yxpError(UNAUTHORIZED)\<close>); and a service that counts
  its own invocations.
\<close>

definition IdRequired :: Schema where
  "IdRequired = yup_object [(''id'', yup_integer_required)]"

definition UserResponse :: Schema where
  "UserResponse = yup_object [(''id'', yup_integer_required), (''username'', yup_string_required)]"

definition IsMeResponse :: Schema where
  "IsMeResponse = yup_object [(''isme'', yup_boolean), (''user'', UserResponse)]"

definition IsMeShape :: shape where
  "IsMeShape = ObjectOf [(''isme'', AnyValue),
                         (''user'', ObjectOf [(''id'', AnyValue), (''username'', AnyValue)])]"

definition no_services :: "nat ServiceFactoryArgs" where
  "no_services = (\<lambda>name. None)"

definition user_unauthorized :: "nat ServiceFactoryArgs" where
  "user_unauthorized =
     (\<lambda>name. if name = ''user'' then Some (\<lambda>httpArgs w. (Inl (yxpError 401 None), Suc w)) else None)"

definition counting_service :: "nat ServiceFactoryArgs" where
  "counting_service =
     (\<lambda>name. if name = ''used'' then Some (\<lambda>httpArgs w. (Inr (JNum (int w)), Suc w)) else None)"

definition start :: "nat state" where
  "start = \<lparr>calls = [], world = 0\<rparr>"

text \<open>
  The user record of the demonstration application (\<open>UserResponse\<close> leaves its
  \<open>password\<close> out), a plain domain object that happens to have a \<open>type\<close> field, and
  two handlers that read a service twice (one that catches what the first read throws,
  and one that returns the two values read), and two handlers that read the \<open>user\<close>
  service once: one lets what the read throws escape, the other catches it and returns
  it. \<open>user_logged_in\<close> is the demonstration's \<open>user\<close> service for a request of the user
  with id 1, and \<open>isme_action\<close> the handler of its \<open>/api/isme/:id\<close>.
\<close>

definition michael :: jsval where
  "michael = JObj [(''id'', JNum 1), (''username'', JStr ''michael''), (''password'', JStr ''swordfish'')]"

definition tagged_object :: jsval where
  "tagged_object = JObj [(''type'', JStr ''YxpError''), (''id'', JNum 1), (''secret'', JStr ''secret value'')]"

definition reads_user_twice :: handler where
  "reads_user_twice = (\<lambda>a. Read ''user'' (\<lambda>first. Read ''user'' (\<lambda>second. Return JUndefined)))"

definition reads_used_twice :: handler where
  "reads_used_twice =
     (\<lambda>a. Read ''used'' (\<lambda>first. Read ''used'' (\<lambda>second.
        case (first, second) of
          (Inr x, Inr y) \<Rightarrow> Return (JObj [(''first'', x), (''second'', y)])
        | (Inl e, _) \<Rightarrow> Throw e
        | (_, Inl e) \<Rightarrow> Throw e)))"

definition reads_user :: handler where
  "reads_user = (\<lambda>a. Read ''user'' (\<lambda>r. case r of Inl e \<Rightarrow> Throw e | Inr u \<Rightarrow> Return u))"

definition user_logged_in :: "nat ServiceFactoryArgs" where
  "user_logged_in =
     (\<lambda>name. if name = ''user'' then Some (\<lambda>httpArgs w. (Inr michael, Suc w)) else None)"

definition isme_action :: handler where
  "isme_action =
     (\<lambda>a. Read ''user'' (\<lambda>r.
        case r of
          Inl e \<Rightarrow> Throw e
        | Inr user \<Rightarrow>
            Return (JObj [(''user'', user),
                          (''isme'', JBool (js_member (params a) ''id'' = js_member user ''id''))])))"

definition returns_user_error :: handler where
  "returns_user_error = (\<lambda>a. Read ''user'' (\<lambda>r. case r of Inl e \<Rightarrow> Return e | Inr u \<Rightarrow> Return u))"

section \<open>Basic facts\<close>

lemma js_each_cookie:
  "js_each kvs (\<lambda>v name. res_cookie rs name v) s =
     (Inr (), s\<lparr>calls := calls s @ map (\<lambda>(name, v). ResCookie name v) kvs\<rparr>)"
  by (induction kvs arbitrary: s)
     (auto simp: js_return_def js_bind_def res_cookie_def log_call_def)

lemma js_each_header:
  "js_each kvs (\<lambda>v name. res_header rs name v) s =
     (Inr (), s\<lparr>calls := calls s @ map (\<lambda>(name, v). ResHeader name v) kvs\<rparr>)"
  by (induction kvs arbitrary: s)
     (auto simp: js_return_def js_bind_def res_header_def log_call_def)

lemma forOwn_cookie:
  "forOwn obj (\<lambda>v name. res_cookie rs name v) s =
     (Inr (), s\<lparr>calls := calls s @ map (\<lambda>(name, v). ResCookie name v) (forOwn_entries obj)\<rparr>)"
  by (simp add: forOwn_def js_each_cookie)

lemma forOwn_header:
  "forOwn obj (\<lambda>v name. res_header rs name v) s =
     (Inr (), s\<lparr>calls := calls s @ map (\<lambda>(name, v). ResHeader name v) (forOwn_entries obj)\<rparr>)"
  by (simp add: forOwn_def js_each_header)

lemma js_bind_lift_Inr [simp]: "js_bind (js_lift (Inr x)) f = f x"
  by (rule ext) (simp add: js_bind_def js_lift_def)

lemma js_bind_lift_Inl [simp]: "js_bind (js_lift (Inl e)) f = js_throw e"
  by (rule ext) (simp add: js_bind_def js_lift_def js_throw_def)

lemma js_bind_return [simp]: "js_bind (js_return x) f = f x"
  by (rule ext) (simp add: js_bind_def js_return_def)

lemma js_bind_throw [simp]: "js_bind (js_throw e) f = js_throw e"
  by (rule ext) (simp add: js_bind_def js_throw_def)

lemma options_js_cookies:
  "prop_get (options_js opts) ''cookies'' =
     Inr (case cookies opts of None \<Rightarrow> JUndefined | Some c \<Rightarrow> string_map_js c)"
  by (simp add: options_js_def split: option.splits)

lemma options_js_headers:
  "prop_get (options_js opts) ''headers'' =
     Inr (case headers opts of None \<Rightarrow> JUndefined | Some c \<Rightarrow> string_map_js c)"
  by (simp add: options_js_def split: option.splits)

lemma sendResults_yxpSuccess:
  "sendResults rs (yxpSuccess b st options) s =
     (let opts = (case options of None \<Rightarrow> no_options | Some given \<Rightarrow> given)
      in (Inr (), s\<lparr>calls := calls s @ cookie_calls opts @ header_calls opts @
            [ResStatus (JNum (case st of None \<Rightarrow> OK | Some c \<Rightarrow> c)), ResSend b]\<rparr>))"
proof -
  define opts where "opts = (case options of None \<Rightarrow> no_options | Some given \<Rightarrow> given)"
  have r: "yxpSuccess b st options = JObj
     [(''type'', JStr ''YxpSuccess''), (''body'', b),
      (''statusCode'', JNum (case st of None \<Rightarrow> OK | Some c \<Rightarrow> c)),
      (''options'', options_js opts)]"
    by (simp add: yxpSuccess_def opts_def)
  show ?thesis
    unfolding r Let_def opts_def [symmetric]
    by (simp add: sendResults_def isYxpSuccess_def options_js_cookies options_js_headers
        js_or_def string_map_js_def forOwn_cookie forOwn_header js_bind_def res_status_def
        res_send_def log_call_def cookie_calls_def header_calls_def comp_def case_prod_unfold
        split: option.splits)
qed

lemma sendResults_yxpError:
  "sendResults rs (yxpError st b) s =
     (Inr (), s\<lparr>calls := calls s @
        [ResStatus (JNum st), ResSend (JStr (case b of None \<Rightarrow> [] | Some m \<Rightarrow> m))]\<rparr>)"
  by (simp add: yxpError_def sendResults_def isYxpSuccess_def js_bind_def res_status_def
      res_send_def log_call_def)


lemma prop_get_Inl: "prop_get v p = Inl e \<Longrightarrow> \<exists>m. e = TypeError m"
  by (cases v) auto

lemma not_isYxpResults_TypeError [simp]: "\<not> isYxpResults (TypeError m)"
  by (simp add: isYxpResults_def lodash_get_def TypeError_def ResultTypes_def)

lemma isYxpResults_iff:
  "isYxpResults v \<longleftrightarrow>
     (\<exists>kvs. v = JObj kvs \<and> (map_of kvs ''type'' = Some (JStr ''YxpSuccess'') \<or> map_of kvs ''type'' = Some (JStr ''YxpError'')))"
  by (cases v) (auto simp: isYxpResults_def lodash_get_def ResultTypes_def TypeError_def split: option.splits)

lemma sendResults_Inl:
  assumes "sendResults rs v s = (Inl e, s')"
  shows "\<exists>m. e = TypeError m"
proof -
  have a: "\<And>x p s f. js_bind (js_lift (prop_get x p)) f s = (Inl e, s') \<Longrightarrow>
      (\<exists>m. e = TypeError m) \<or> (\<exists>y. prop_get x p = Inr y \<and> f y s = (Inl e, s'))"
    subgoal for x p s f
      by (cases "prop_get x p") (auto simp: js_throw_def dest: prop_get_Inl)
    done
  from assms show ?thesis
    unfolding sendResults_def isYxpSuccess_def
    apply (cases "prop_get v ''type''")
     apply (auto simp: js_throw_def dest: prop_get_Inl)[1]
    apply (simp split: if_splits)
     apply (auto simp: js_bind_def js_lift_def js_return_def forOwn_cookie forOwn_header res_status_def res_send_def log_call_def
        split: sum.splits prod.splits dest: prop_get_Inl)
    done
qed

lemma sendResults_not_Results: "sendResults rs v s = (Inl e, s') \<Longrightarrow> \<not> isYxpResults e"
  using sendResults_Inl by fastforce

lemma endpoint_handler_outcome:
  assumes "handler_outcome F action sch request rs s = Some (r, s2)"
  shows "endpoint F action sch fmt request rs s =
     js_catch (js_bind (js_lift r) (\<lambda>results.
                 sendUnknownResponse rs results (case fmt of None \<Rightarrow> BlankReturn | Some given \<Rightarrow> given)))
              (\<lambda>e. if isYxpResults e then sendResults rs e else js_throw e) s2"
  using assms
  by (auto simp: handler_outcome_def endpoint_def Let_def js_catch_def js_bind_def js_lift_def
      split: prod.splits if_splits sum.splits)

lemma endpoint_returned_Results:
  assumes "handler_outcome F action sch request rs s = Some (Inr v, s2)" and "isYxpResults v"
  shows "endpoint F action sch fmt request rs s = sendResults rs v s2"
  using assms sendResults_not_Results [of rs v s2]
  by (cases "sendResults rs v s2")
     (auto simp: endpoint_handler_outcome sendUnknownResponse_def js_catch_def js_throw_def split: sum.splits)

lemma endpoint_thrown:
  assumes "handler_outcome F action sch request rs s = Some (Inl e, s2)"
  shows "endpoint F action sch fmt request rs s = (if isYxpResults e then sendResults rs e s2 else (Inl e, s2))"
  using assms
  by (auto simp: endpoint_handler_outcome js_catch_def js_throw_def)


lemma isYxpResults_paramError [simp]: "isYxpResults (paramError m)"
  by (simp add: paramError_def yxpError_def isYxpResults_def lodash_get_def ResultTypes_def)

lemma getSchemataArgs_failure:
  assumes "first_validation_failure (categories schemata request) = Some (cs, message)"
  shows "getSchemataArgs request schemata s = (paramError message, s\<lparr>calls := calls s @ cs\<rparr>)"
  using assms
  by (cases "params_schema schemata"; cases "query_schema schemata"; cases "body_schema schemata")
     (auto simp: categories_def getSchemataArgs_def validate_category_def split: sum.splits)

lemma BlankReturn_cast_undefined: "cast_stripUnknown BlankReturn JUndefined = Inr JUndefined"
  by (simp add: BlankReturn_def yup_object_def)

lemma BlankReturn_cast_object: "cast_stripUnknown BlankReturn (JObj kvs) = Inr (JObj [])"
  by (simp add: BlankReturn_def yup_object_def)

lemma sendResults_json:
  "sendResults rs (json v None) s =
     (Inr (), s\<lparr>calls := calls s @ [ResStatus (JNum 200), ResSend (JSON_stringify v)]\<rparr>)"
  by (simp add: json_def text_yxp_def sendResults_yxpSuccess cookie_calls_def header_calls_def
      no_options_def OK_def)

lemma endpoint_returned_plain:
  assumes "handler_outcome F action sch request rs s = Some (Inr v, s2)"
    and "\<not> isYxpResults v"
    and "cast_stripUnknown (case fmt of None \<Rightarrow> BlankReturn | Some given \<Rightarrow> given) v = Inr w"
  shows "endpoint F action sch fmt request rs s =
     (Inr (), s2\<lparr>calls := calls s2 @ [ResStatus (JNum 200), ResSend (JSON_stringify w)]\<rparr>)"
  using assms
  by (simp add: endpoint_handler_outcome sendUnknownResponse_def sendResults_json js_catch_def)

subsection \<open>The tally of a service\<close>

lemma counts_append [simp]:
  "factory_calls name (xs @ ys) = factory_calls name xs + factory_calls name ys"
  "failed_reads name (xs @ ys) = failed_reads name xs + failed_reads name ys"
  "read_values name (xs @ ys) = read_values name xs @ read_values name ys"
  by (induction xs) (simp_all add: factory_calls_def failed_reads_def split: option.splits)

lemma counts_Nil [simp]:
  "factory_calls name [] = 0" "failed_reads name [] = 0"
  by (simp_all add: factory_calls_def failed_reads_def)

lemma counts_Cons [simp]:
  "factory_calls name (c # cs) = (if is_factory_call name c then 1 else 0) + factory_calls name cs"
  "failed_reads name (c # cs) = (if is_failed_read name c then 1 else 0) + failed_reads name cs"
  by (simp_all add: factory_calls_def failed_reads_def)

lemma tally_refl: "tally name a [] a"
  by (simp add: tally_def split: option.splits)

lemma tally_trans:
  "tally name a xs b \<Longrightarrow> tally name b ys c \<Longrightarrow> tally name a (xs @ ys) c"
  by (auto simp: tally_def split: option.splits if_splits)

lemma quiet_tally: "quiet name cs \<Longrightarrow> tally name a cs a"
  by (simp add: quiet_def tally_def split: option.splits)

lemma read_service_step:
  assumes "factories_bound ctx" and "read_service ctx n s = (r, ctx', s')"
  shows "\<exists>new. calls s' = calls s @ new \<and> factories_bound ctx' \<and>
           tally name (cached ctx name) new (cached ctx' name)"
proof (cases "getters ctx n")
  case None
  with assms show ?thesis
    by (auto simp: read_service_def tally_refl)
next
  case (Some m)
  from assms(1) Some have "\<exists>f h. func m = call_factory n f h"
    unfolding factories_bound_def by blast
  then obtain f h where f: "func m = call_factory n f h"
    by blast
  show ?thesis
  proof (cases "cache m")
    case c: (Some v)
    have same: "(getters ctx)(n := Some m) = getters ctx"
      using Some by (simp add: fun_upd_idem)
    from assms Some c have "ctx' = ctx" "s' = s\<lparr>calls := calls s @ [ServiceRead n (Inr v)]\<rparr>" "r = Inr v"
      by (auto simp: read_service_def call_memoized_def same)
    with assms(1) Some c show ?thesis
      by (auto simp: tally_def cached_def split: option.splits)
  next
    case c: None
    obtain r0 w' where fw: "f h (world s) = (r0, w')"
      by (cases "f h (world s)")
    show ?thesis
    proof (cases r0)
      case (Inl e)
      have same: "(getters ctx)(n := Some m) = getters ctx"
        using Some by (simp add: fun_upd_idem)
      from assms Some c f fw Inl
      have "ctx' = ctx" "calls s' = calls s @ [FactoryCall n, ServiceRead n (Inl e)]"
        by (auto simp: read_service_def call_memoized_def call_factory_def same)
      with assms(1) Some c show ?thesis
        by (auto simp: tally_def cached_def split: option.splits)
    next
      case (Inr v)
      from assms Some c f fw Inr
      have x: "ctx' = ctx\<lparr>getters := (getters ctx)(n := Some (m\<lparr>cache := Some v\<rparr>))\<rparr>"
        "calls s' = calls s @ [FactoryCall n, ServiceRead n (Inr v)]"
        by (auto simp: read_service_def call_memoized_def call_factory_def)
      have b: "factories_bound ctx'"
        using assms(1) f unfolding x factories_bound_def by auto
      show ?thesis
        using x b Some c
        by (auto simp: tally_def cached_def split: option.splits)
    qed
  qed
qed

lemma run_handler_tally:
  assumes "factories_bound ctx" and "run_handler a ctx s = (r, ctx', s')"
  shows "\<exists>new. calls s' = calls s @ new \<and> tally name (cached ctx name) new (cached ctx' name)"
  using assms
proof (induction a arbitrary: ctx s)
  case (Return v)
  then show ?case by (auto simp: tally_refl)
next
  case (Throw e)
  then show ?case by (auto simp: tally_refl)
next
  case (Read n k)
  obtain r1 ctx1 s1 where step: "read_service ctx n s = (r1, ctx1, s1)"
    by (cases "read_service ctx n s")
  from read_service_step [OF Read.prems(1) step, of name]
  obtain new1 where n1: "calls s1 = calls s @ new1" "factories_bound ctx1"
      "tally name (cached ctx name) new1 (cached ctx1 name)"
    by blast
  from Read.prems(2) step have run: "run_handler (k r1) ctx1 s1 = (r, ctx', s')"
    by simp
  from Read.IH [OF _ n1(2) run]
  obtain new2 where n2: "calls s' = calls s1 @ new2" "tally name (cached ctx1 name) new2 (cached ctx' name)"
    by (auto simp: range_eqI)
  show ?case
    using n1 n2 tally_trans [OF n1(3) n2(2)] by auto
qed


lemma quiet_Nil [simp]: "quiet name []"
  by (simp add: quiet_def)

lemma quiet_append: "quiet name xs \<Longrightarrow> quiet name ys \<Longrightarrow> quiet name (xs @ ys)"
  by (simp add: quiet_def)

lemma quiet_js_return [intro!]: "quiet_js name (js_return x)"
  by (simp add: quiet_js_def js_return_def)

lemma quiet_js_throw [intro!]: "quiet_js name (js_throw e)"
  by (simp add: quiet_js_def js_throw_def)

lemma quiet_js_lift [intro!]: "quiet_js name (js_lift r)"
  by (simp add: quiet_js_def js_lift_def)

lemma quiet_js_bind [intro!]:
  assumes "quiet_js name m" and "\<And>x. quiet_js name (f x)"
  shows "quiet_js name (js_bind m f)"
  unfolding quiet_js_def
proof (intro allI impI)
  fix s r s'
  assume run: "js_bind m f s = (r, s')"
  obtain r1 s1 where m: "m s = (r1, s1)"
    by (cases "m s")
  with assms(1) obtain xs where xs: "calls s1 = calls s @ xs" "quiet name xs"
    unfolding quiet_js_def by blast
  show "\<exists>cs. calls s' = calls s @ cs \<and> quiet name cs"
  proof (cases r1)
    case (Inl e)
    with run m xs show ?thesis
      by (auto simp: js_bind_def)
  next
    case (Inr x)
    with run m have "f x s1 = (r, s')"
      by (simp add: js_bind_def)
    with assms(2) obtain ys where "calls s' = calls s1 @ ys" "quiet name ys"
      unfolding quiet_js_def by blast
    with xs show ?thesis
      by (auto intro: quiet_append)
  qed
qed

lemma quiet_js_catch [intro!]:
  assumes "quiet_js name m" and "\<And>e. quiet_js name (h e)"
  shows "quiet_js name (js_catch m h)"
  unfolding quiet_js_def
proof (intro allI impI)
  fix s r s'
  assume run: "js_catch m h s = (r, s')"
  obtain r1 s1 where m: "m s = (r1, s1)"
    by (cases "m s")
  with assms(1) obtain xs where xs: "calls s1 = calls s @ xs" "quiet name xs"
    unfolding quiet_js_def by blast
  show "\<exists>cs. calls s' = calls s @ cs \<and> quiet name cs"
  proof (cases r1)
    case (Inr x)
    with run m xs show ?thesis
      by (auto simp: js_catch_def)
  next
    case (Inl e)
    with run m have "h e s1 = (r, s')"
      by (simp add: js_catch_def)
    with assms(2) obtain ys where "calls s' = calls s1 @ ys" "quiet name ys"
      unfolding quiet_js_def by blast
    with xs show ?thesis
      by (auto intro: quiet_append)
  qed
qed

lemma quiet_js_res [intro!]:
  "quiet_js name (res_cookie rs n v)" "quiet_js name (res_header rs n v)"
  "quiet_js name (res_status rs v)" "quiet_js name (res_send rs v)"
  by (simp_all add: quiet_js_def res_cookie_def res_header_def res_status_def res_send_def
      log_call_def quiet_def)

lemma quiet_js_each [intro!]:
  assumes "\<And>v n. quiet_js name (f v n)"
  shows "quiet_js name (js_each kvs f)"
  by (induction kvs) (auto intro: assms)

lemma quiet_js_forOwn [intro!]:
  assumes "\<And>v n. quiet_js name (f v n)"
  shows "quiet_js name (forOwn obj f)"
  unfolding forOwn_def by (rule quiet_js_each) (rule assms)

lemma quiet_js_if [intro!]:
  "quiet_js name m1 \<Longrightarrow> quiet_js name m2 \<Longrightarrow> quiet_js name (if b then m1 else m2)"
  by simp

lemma quiet_js_sendResults [intro!]: "quiet_js name (sendResults rs v)"
  unfolding sendResults_def by (intro quiet_js_bind quiet_js_lift quiet_js_if quiet_js_forOwn quiet_js_res quiet_js_return)

lemma quiet_js_sendUnknownResponse [intro!]: "quiet_js name (sendUnknownResponse rs v fmt)"
  unfolding sendUnknownResponse_def by (intro quiet_js_if quiet_js_bind quiet_js_lift quiet_js_sendResults)

lemma getSchemataArgs_quiet:
  assumes "getSchemataArgs request schemata s = (sa, s1)"
  shows "\<exists>cs. calls s1 = calls s @ cs \<and> quiet name cs"
  using assms
  by (auto simp: getSchemataArgs_def validate_category_def quiet_def
      split: option.splits sum.splits prod.splits)

lemma factories_bound_addServices: "factories_bound (addServices F a)"
  by (auto simp: factories_bound_def addServices_def memoize_def split: option.splits)

lemma cached_addServices: "cached (addServices F a) name = None"
  by (simp add: cached_def addServices_def memoize_def split: option.splits)

lemma call_action_tally:
  assumes "call_action action (addServices F a) s = (r, s')"
  shows "\<exists>new after. calls s' = calls s @ new \<and> tally name None new after"
proof -
  obtain ctx' where run: "run_handler (action (args (addServices F a))) (addServices F a)
        (s\<lparr>calls := calls s @ [ActionCall]\<rparr>) = (r, ctx', s')"
    using assms by (auto simp: call_action_def split: prod.splits)
  from run_handler_tally [OF factories_bound_addServices run, of name]
  obtain new where n: "calls s' = calls s @ [ActionCall] @ new"
      "tally name None new (cached ctx' name)"
    by (auto simp: cached_addServices)
  have "quiet name [ActionCall]"
    by (simp add: quiet_def)
  from tally_trans [OF quiet_tally [OF this] n(2)] n(1) show ?thesis
    by auto
qed

lemma tally_quiet: "tally name a xs b \<Longrightarrow> quiet name ys \<Longrightarrow> tally name a (xs @ ys) b"
  using tally_trans quiet_tally by blast

lemma quiet_then_tally: "quiet name xs \<Longrightarrow> tally name a ys b \<Longrightarrow> tally name a (xs @ ys) b"
  using tally_trans quiet_tally by blast

lemma endpoint_tally:
  assumes "endpoint F action sch fmt request rs s = (r, s')"
  shows "\<exists>new after. calls s' = calls s @ new \<and> tally name None new after"
proof -
  define schemata where "schemata = (case sch of None \<Rightarrow> no_schemata | Some given \<Rightarrow> given)"
  define formatter where "formatter = (case fmt of None \<Rightarrow> BlankReturn | Some given \<Rightarrow> given)"
  obtain sa s1 where g: "getSchemataArgs request schemata s = (sa, s1)"
    by (cases "getSchemataArgs request schemata s")
  from getSchemataArgs_quiet [OF g, of name]
  obtain vs where vs: "calls s1 = calls s @ vs" "quiet name vs"
    by blast
  show ?thesis
  proof (cases "isYxpResults sa")
    case True
    with assms g have "sendResults rs sa s1 = (r, s')"
      by (simp add: endpoint_def schemata_def)
    with quiet_js_sendResults [of name rs sa] obtain cs where "calls s' = calls s1 @ cs" "quiet name cs"
      unfolding quiet_js_def by blast
    with vs have "calls s' = calls s @ (vs @ cs)" "tally name None (vs @ cs) None"
      by (auto intro: quiet_tally quiet_append)
    then show ?thesis by blast
  next
    case False
    define a where "a = \<lparr>req = request, res = rs,
                         params = js_member sa ''params'',
                         query = js_member sa ''query'',
                         body = js_member sa ''body''\<rparr>"
    from False assms g have e: "js_catch (js_bind (call_action action (addServices F a)) (\<lambda>results.
                     sendUnknownResponse rs results formatter))
                 (\<lambda>e. if isYxpResults e then sendResults rs e else js_throw e) s1 = (r, s')"
      by (simp add: endpoint_def schemata_def formatter_def a_def Let_def)
    obtain r2 s2 where c: "call_action action (addServices F a) s1 = (r2, s2)"
      by (cases "call_action action (addServices F a) s1")
    from call_action_tally [OF c, of name]
    obtain hs after where hs: "calls s2 = calls s1 @ hs" "tally name None hs after"
      by blast
    have rest: "\<exists>cs. calls s' = calls s2 @ cs \<and> quiet name cs"
    proof (cases r2)
      case (Inl x)
      with e c have "(if isYxpResults x then sendResults rs x else js_throw x) s2 = (r, s')"
        by (simp add: js_catch_def js_bind_def)
      moreover have "quiet_js name (if isYxpResults x then sendResults rs x else js_throw x)"
        by (intro quiet_js_if quiet_js_sendResults quiet_js_throw)
      ultimately show ?thesis
        unfolding quiet_js_def by blast
    next
      case (Inr v)
      with e c have "js_catch (sendUnknownResponse rs v formatter)
          (\<lambda>e. if isYxpResults e then sendResults rs e else js_throw e) s2 = (r, s')"
        by (simp add: js_catch_def js_bind_def)
      moreover have "quiet_js name (js_catch (sendUnknownResponse rs v formatter)
          (\<lambda>e. if isYxpResults e then sendResults rs e else js_throw e))"
        by (intro quiet_js_catch quiet_js_if quiet_js_sendResults quiet_js_throw quiet_js_sendUnknownResponse)
      ultimately show ?thesis
        unfolding quiet_js_def by blast
    qed
    then obtain cs where cs: "calls s' = calls s2 @ cs" "quiet name cs"
      by blast
    have "tally name None (vs @ hs @ cs) after"
      using vs(2) hs(2) cs(2) by (intro quiet_then_tally tally_quiet)
    moreover have "calls s' = calls s @ (vs @ hs @ cs)"
      using vs hs cs by simp
    ultimately show ?thesis by blast
  qed
qed

subsection \<open>Decoding what JSON.stringify writes\<close>

lemma digit_char_code: "d < 10 \<Longrightarrow> (of_char (digit_char d) :: nat) = 48 + d"
proof -
  assume "d < 10"
  then have "d = 0 \<or> d = 1 \<or> d = 2 \<or> d = 3 \<or> d = 4 \<or> d = 5 \<or> d = 6 \<or> d = 7 \<or> d = 8 \<or> d = 9"
    by arith
  then show ?thesis
    by (auto simp: digit_char_def)
qed

lemma hex_value_digit_char: "d < 16 \<Longrightarrow> hex_value (digit_char d) = Some d"
proof -
  assume "d < 16"
  then have "d = 0 \<or> d = 1 \<or> d = 2 \<or> d = 3 \<or> d = 4 \<or> d = 5 \<or> d = 6 \<or> d = 7 \<or> d = 8 \<or> d = 9
      \<or> d = 10 \<or> d = 11 \<or> d = 12 \<or> d = 13 \<or> d = 14 \<or> d = 15"
    by arith
  then show ?thesis
    by (auto simp: digit_char_def hex_value_def)
qed

lemma is_digit_digit_char: "d < 10 \<Longrightarrow> is_digit (digit_char d)"
  by (simp add: is_digit_def digit_char_code)

lemma show_nat_nonempty: "show_nat n \<noteq> []"
  by (subst show_nat.simps) simp

lemma show_nat_digits: "list_all is_digit (show_nat n)"
proof (induction n rule: show_nat.induct)
  case (1 n)
  show ?case
  proof (cases "n < 10")
    case True
    then show ?thesis
      by (subst show_nat.simps) (simp add: is_digit_digit_char)
  next
    case False
    with 1 show ?thesis
      by (subst show_nat.simps) (simp add: is_digit_digit_char)
  qed
qed

lemma digits_value_snoc: "digits_value (ds @ [c]) = 10 * digits_value ds + (of_char c - 48)"
  by (simp add: digits_value_def)

lemma digits_value_show_nat: "digits_value (show_nat n) = n"
proof (induction n rule: show_nat.induct)
  case (1 n)
  show ?case
  proof (cases "n < 10")
    case True
    then show ?thesis
      by (subst show_nat.simps) (simp add: digits_value_def digit_char_code)
  next
    case False
    with 1 show ?thesis
      by (subst show_nat.simps) (simp add: digits_value_snoc digit_char_code)
  qed
qed

lemma show_nat_leading_zero: "hd (show_nat n) = CHR ''0'' \<Longrightarrow> tl (show_nat n) = []"
proof (induction n rule: show_nat.induct)
  case (1 n)
  show ?case
  proof (cases "n < 10")
    case True
    then show ?thesis
      by (subst show_nat.simps) simp
  next
    case False
    then have d: "n div 10 \<noteq> 0" by simp
    from False 1(2) have "hd (show_nat (n div 10)) = CHR ''0''"
      by (subst (asm) show_nat.simps) (simp add: show_nat_nonempty)
    with 1(1) False have t: "tl (show_nat (n div 10)) = []"
      by simp
    have "show_nat (n div 10) = [hd (show_nat (n div 10))]"
      using t show_nat_nonempty [of "n div 10"] by (cases "show_nat (n div 10)") auto
    then have "digits_value (show_nat (n div 10)) = digits_value [CHR ''0'']"
      using \<open>hd (show_nat (n div 10)) = CHR ''0''\<close> by simp
    then have "n div 10 = 0"
      by (simp only: digits_value_show_nat) (simp add: digits_value_def)
    with d show ?thesis by simp
  qed
qed

lemma takeWhile_digits:
  "list_all is_digit ds \<Longrightarrow> delim rest \<Longrightarrow>
     takeWhile is_digit (ds @ rest) = ds \<and> dropWhile is_digit (ds @ rest) = rest"
  by (induction ds) (auto simp: delim_def split: list.splits)

lemma parse_digits_show_nat:
  "delim rest \<Longrightarrow> parse_digits (show_nat n @ rest) = Some (n, rest)"
  using takeWhile_digits [OF show_nat_digits, of rest n] show_nat_leading_zero [of n]
  by (auto simp: parse_digits_def Let_def show_nat_nonempty digits_value_show_nat)

lemma hd_show_nat_digit: "is_digit (hd (show_nat n))"
  using show_nat_digits [of n] show_nat_nonempty [of n] by (cases "show_nat n") auto

lemma parse_number_show_int:
  assumes "delim rest"
  shows "parse_number (show_int i @ rest) = Some (i, rest)"
proof (cases "i < 0")
  case True
  then show ?thesis
    by (simp add: parse_number_def show_int_def parse_digits_show_nat [OF assms])
next
  case False
  obtain c cs where s: "show_nat (nat i) = c # cs"
    using show_nat_nonempty [of "nat i"] by (cases "show_nat (nat i)") auto
  with hd_show_nat_digit [of "nat i"] have "c \<noteq> CHR ''-''"
    by (auto simp: is_digit_def)
  with False s parse_digits_show_nat [OF assms, of "nat i"] show ?thesis
    by (simp add: parse_number_def show_int_def)
qed

lemma parse_chars_escaped:
  "parse_chars (concat (map json_escape s) @ CHR 0x22 # rest) = Some (s, rest)"
proof (induction s)
  case Nil
  show ?case by simp
next
  case (Cons c s)
  have low: "of_char c < (32 :: nat) \<Longrightarrow>
      hex_value (digit_char (of_char c div 16)) = Some (of_char c div 16) \<and>
      hex_value (digit_char (of_char c mod 16)) = Some (of_char c mod 16)"
    by (simp add: hex_value_digit_char)
  have zero: "hex_value CHR ''0'' = Some 0"
    by (simp add: hex_value_def)
  have whole: "char_of (16 * (of_char c div 16) + of_char c mod (16 :: nat)) = c"
    by simp
  show ?case
    using Cons low zero whole
    by (simp add: json_escape_def unescape_def)
qed


lemma show_int_first:
  "\<exists>c cs. show_int i = c # cs \<and> (c = CHR ''-'' \<or> is_digit c)"
proof (cases "i < 0")
  case True
  then show ?thesis by (simp add: show_int_def)
next
  case False
  then show ?thesis
    using hd_show_nat_digit [of "nat i"] show_nat_nonempty [of "nat i"]
    by (cases "show_nat (nat i)") (auto simp: show_int_def)
qed

lemma parse_value_number:
  assumes "delim rest"
  shows "parse_value (Suc n) (show_int i @ rest) = Some (JNum i, rest)"
proof -
  obtain c cs where s: "show_int i = c # cs" and c: "c = CHR ''-'' \<or> is_digit c"
    using show_int_first by blast
  from c have "c \<noteq> CHR ''n''" "c \<noteq> CHR ''t''" "c \<noteq> CHR ''f''" "c \<noteq> CHR 0x22"
      "c \<noteq> CHR ''[''" "c \<noteq> CHR ''{''"
    by (auto simp: is_digit_def)
  then have "parse_value (Suc n) ((c # cs) @ rest) = map_option (\<lambda>(i, rest). (JNum i, rest)) (parse_number ((c # cs) @ rest))"
    by simp
  then show ?thesis
    using parse_number_show_int [OF assms, of i] by (simp add: s)
qed

lemma JSON_ser_first: "\<exists>c cs. JSON_ser v = c # cs \<and> c \<noteq> CHR '']''"
proof (cases v)
  case (JNum i)
  then show ?thesis
    using show_int_first [of i] by (auto simp: is_digit_def)
qed (auto simp: json_quote_def)

lemma join_commas_Cons:
  "join_commas (x # xs) = (if xs = [] then x else x @ CHR '','' # join_commas xs)"
  by (cases xs) auto

lemma join_commas_first:
  "join_commas ((c # cs) # ss) = c # (if ss = [] then cs else cs @ CHR '','' # join_commas ss)"
  by (cases ss) auto

lemma JSON_ser_elems_Nil [simp]: "JSON_ser_elems xs = [] \<longleftrightarrow> xs = []"
  by (cases xs) auto

lemma norm_members_Nil: "JSON_ser_members kvs = [] \<Longrightarrow> norm_members kvs = []"
  by (induction kvs) (auto split: if_splits)

lemma delim_simps [simp]:
  "delim (CHR '','' # r)" "delim (CHR '']'' # r)" "delim (CHR ''}'' # r)" "delim []"
  by (simp_all add: delim_def is_digit_def)

lemma parse_roundtrip:
  shows "\<And>f rest. length (JSON_ser v) < f \<Longrightarrow> delim rest \<Longrightarrow>
           parse_value f (JSON_ser v @ rest) = Some (json_norm v, rest)"
    and "\<And>f rest. xs \<noteq> [] \<Longrightarrow> length (join_commas (JSON_ser_elems xs)) + 1 < f \<Longrightarrow>
           parse_elements f (join_commas (JSON_ser_elems xs) @ CHR '']'' # rest) = Some (norm_elements xs, rest)"
    and "\<And>f rest. JSON_ser_members kvs \<noteq> [] \<Longrightarrow> length (join_commas (JSON_ser_members kvs)) + 1 < f \<Longrightarrow>
           parse_members f (join_commas (JSON_ser_members kvs) @ CHR ''}'' # rest) = Some (norm_members kvs, rest)"
proof (induction v and xs and kvs rule: JSON_ser_JSON_ser_elems_JSON_ser_members.induct)
  case 1
  then obtain n where "f = Suc n" by (cases f) auto
  then show ?case by (simp add: parse_literal_def)
next
  case 2
  then obtain n where "f = Suc n" by (cases f) auto
  then show ?case by (simp add: parse_literal_def)
next
  case (3 b)
  then obtain n where "f = Suc n" by (cases f) auto
  then show ?case by (simp add: parse_literal_def)
next
  case (4 i)
  then obtain n where f: "f = Suc n" by (cases f) auto
  show ?case
    by (simp only: f JSON_ser.simps json_norm.simps parse_value_number [OF "4.prems"(2)])
next
  case (5 s)
  then obtain n where "f = Suc n" by (cases f) auto
  then show ?case by (simp add: json_quote_def parse_chars_escaped)
next
  case (6 xs)
  then obtain n where f: "f = Suc n" by (cases f) auto
  show ?case
  proof (cases "xs = []")
    case True
    with f show ?thesis by simp
  next
    case False
    then obtain x xs' where xs: "xs = x # xs'" by (cases xs) auto
    obtain c cs where c: "JSON_ser x = c # cs" "c \<noteq> CHR '']''"
      using JSON_ser_first by blast
    then obtain t where j: "join_commas (JSON_ser_elems xs) = c # t"
      by (simp add: xs join_commas_first)
    from "6.prems" f have len: "length (join_commas (JSON_ser_elems xs)) + 1 < n"
      by simp
    have "parse_elements n (join_commas (JSON_ser_elems xs) @ CHR '']'' # rest) = Some (norm_elements xs, rest)"
      using "6.IH" [OF False len] .
    with f c(2) show ?thesis
      by (simp add: j)
  qed
next
  case (7 kvs)
  then obtain n where f: "f = Suc n" by (cases f) auto
  show ?case
  proof (cases "JSON_ser_members kvs = []")
    case True
    with f show ?thesis by (simp add: norm_members_Nil)
  next
    case False
    then obtain m ms where ms: "JSON_ser_members kvs = m # ms" by (cases "JSON_ser_members kvs") auto
    have "\<exists>t. m = CHR 0x22 # t"
      using ms by (induction kvs) (auto simp: json_quote_def split: if_splits)
    then obtain t where j: "join_commas (JSON_ser_members kvs) = CHR 0x22 # t"
      by (auto simp: ms join_commas_first)
    from "7.prems" f have len: "length (join_commas (JSON_ser_members kvs)) + 1 < n"
      by simp
    have "parse_members n (join_commas (JSON_ser_members kvs) @ CHR ''}'' # rest) = Some (norm_members kvs, rest)"
      using "7.IH" [OF False len] .
    with f show ?thesis
      by (simp add: j)
  qed
next
  case (8 n m)
  then obtain k where "f = Suc k" by (cases f) auto
  then show ?case by simp
next
  case 9
  then show ?case by simp
next
  case (10 x xs)
  then obtain n where f: "f = Suc n" by (cases f) auto
  obtain c cs where c: "JSON_ser x = c # cs"
    using JSON_ser_first by blast
  show ?case
  proof (cases "xs = []")
    case True
    from "10.prems" f True have "length (JSON_ser x) < n"
      by simp
    have p: "parse_value n (JSON_ser x @ CHR '']'' # rest) = Some (json_norm x, CHR '']'' # rest)"
      using "10.IH"(1) [OF \<open>length (JSON_ser x) < n\<close>, of "CHR '']'' # rest"] by simp
    with f True show ?thesis
      by simp
  next
    case False
    from "10.prems" f False c have l1: "length (JSON_ser x) < n"
      and l2: "length (join_commas (JSON_ser_elems xs)) + 1 < n"
      by (auto simp: join_commas_Cons)
    have p: "parse_value n (JSON_ser x @ CHR '','' # join_commas (JSON_ser_elems xs) @ CHR '']'' # rest) =
        Some (json_norm x, CHR '','' # join_commas (JSON_ser_elems xs) @ CHR '']'' # rest)"
      using "10.IH"(1) [OF l1] by simp
    have q: "parse_elements n (join_commas (JSON_ser_elems xs) @ CHR '']'' # rest) = Some (norm_elements xs, rest)"
      using "10.IH"(2) [OF False l2] .
    from f False p q show ?thesis
      by (simp add: join_commas_Cons)
  qed
next
  case 11
  then show ?case by simp
next
  case (12 k v kvs)
  then obtain n where f: "f = Suc n" by (cases f) auto
  show ?case
  proof (cases "v = JUndefined")
    case True
    with 12 show ?thesis by simp
  next
    case defined: False
    obtain c cs where c: "JSON_ser v = c # cs"
      using JSON_ser_first by blast
    define m where "m = json_quote k @ CHR '':'' # JSON_ser v"
    have ms: "JSON_ser_members ((k, v) # kvs) = m # JSON_ser_members kvs"
      using defined by (simp add: m_def)
    show ?thesis
    proof (cases "JSON_ser_members kvs = []")
      case True
      from "12.prems" f True defined have l1: "length (JSON_ser v) < n"
        by (simp add: m_def)
      have p: "parse_value n (JSON_ser v @ CHR ''}'' # rest) = Some (json_norm v, CHR ''}'' # rest)"
        using "12.IH"(2) [OF defined l1] by simp
      from f True defined p show ?thesis
        by (simp add: json_quote_def parse_chars_escaped norm_members_Nil)
    next
      case nonempty: False
      from "12.prems" f nonempty defined have l1: "length (JSON_ser v) < n"
        and l2: "length (join_commas (JSON_ser_members kvs)) + 1 < n"
        by (auto simp: join_commas_Cons)
      have p: "parse_value n (JSON_ser v @ CHR '','' # join_commas (JSON_ser_members kvs) @ CHR ''}'' # rest) =
          Some (json_norm v, CHR '','' # join_commas (JSON_ser_members kvs) @ CHR ''}'' # rest)"
        using "12.IH"(2) [OF defined l1] by simp
      have q: "parse_members n (join_commas (JSON_ser_members kvs) @ CHR ''}'' # rest) = Some (norm_members kvs, rest)"
        using "12.IH"(3) [OF defined nonempty l2] .
      from f defined nonempty p q show ?thesis
        by (simp add: join_commas_Cons json_quote_def parse_chars_escaped)
    qed
  qed
qed

lemma JSON_parse_stringify: "JSON_parse (JSON_ser v) = Some (json_norm v)"
  using parse_roundtrip(1) [of v "Suc (length (JSON_ser v))" "[]"]
  by (simp add: JSON_parse_def)

section \<open>Evaluation rules for the examples\<close>

lemmas request_defs = handler_outcome_def getSchemataArgs_def validate_category_def
  no_schemata_def lodash_get_def js_member_def js_or_def isYxpResults_def ResultTypes_def call_action_def
  addServices_def pick_req_res_def read_service_def call_memoized_def memoize_def
  call_factory_def no_services_def user_unauthorized_def counting_service_def start_def
  categories_def michael_def tagged_object_def reads_user_twice_def reads_used_twice_def
  reads_user_def returns_user_error_def

lemmas shape_defs = IdRequired_def UserResponse_def yup_object_def yup_integer_required_def
  yup_string_required_def to_integer_def read_int_def read_nat_def own_def

lemmas run_defs = endpoint_def request_defs js_catch_def js_bind_def js_throw_def js_lift_def
  js_return_def sendUnknownResponse_def sendResults_json BlankReturn_cast_undefined
  BlankReturn_cast_object

lemmas json_text_defs = JSON_stringify_def json_quote_def json_escape_def show_int_def
  show_nat.simps digit_char_def

section \<open>The output shape and the fields of the body\<close>

lemma cast_fields_conforms:
  assumes "\<forall>(k, sch) \<in> set flds. \<exists>sh. map_of declared k = Some sh \<and> strips_unknown sch sh"
    and "cast_fields flds kvs = Inr r"
  shows "conforms_members r declared"
  using assms
proof (induction flds arbitrary: r)
  case Nil
  then show ?case by simp
next
  case (Cons f flds)
  obtain k sch where f: "f = (k, sch)" by (cases f)
  from Cons.prems(2) obtain v r' where parts: "cast_stripUnknown sch (own kvs k) = Inr v"
      "cast_fields flds kvs = Inr r'" "r = (if v = JUndefined then r' else (k, v) # r')"
    by (auto simp: f split: sum.splits)
  from Cons.prems(1) obtain sh where sh: "map_of declared k = Some sh" "strips_unknown sch sh"
    by (auto simp: f)
  from sh(2) parts(1) have v: "conforms v sh"
    unfolding strips_unknown_def by blast
  from Cons.prems(1) have "\<forall>(k, sch) \<in> set flds. \<exists>sh. map_of declared k = Some sh \<and> strips_unknown sch sh"
    by simp
  from Cons.IH [OF this parts(2)] have "conforms_members r' declared" .
  with v sh(1) parts(3) show ?case
    by simp
qed

lemma yup_object_strips_unknown:
  assumes "\<forall>(k, sch) \<in> set flds. \<exists>sh. map_of declared k = Some sh \<and> strips_unknown sch sh"
  shows "strips_unknown (yup_object flds) (ObjectOf declared)"
  unfolding strips_unknown_def
proof (intro allI impI)
  fix raw w
  assume c: "cast_stripUnknown (yup_object flds) raw = Inr w"
  show "conforms w (ObjectOf declared)"
  proof (cases raw)
    case JUndefined
    show ?thesis
    proof (cases "flds = []")
      case True
      with c JUndefined show ?thesis
        by (simp add: yup_object_def)
    next
      case False
      with c JUndefined obtain r where "cast_fields flds [] = Inr r" "w = JObj r"
        by (auto simp: yup_object_def split: sum.splits)
      with cast_fields_conforms [OF assms] show ?thesis by simp
    qed
  next
    case (JObj kvs)
    with c obtain r where "cast_fields flds kvs = Inr r" "w = JObj r"
      by (auto simp: yup_object_def split: sum.splits)
    with cast_fields_conforms [OF assms] show ?thesis by simp
  qed (use c in \<open>auto simp: yup_object_def\<close>)
qed

lemma strips_unknown_AnyValue: "strips_unknown sch AnyValue"
  by (simp add: strips_unknown_def)

lemma json_norm_defined: "json_norm v \<noteq> JUndefined"
  by (cases v) auto

lemma conforms_no_fields: "conforms (JObj []) sh"
  by (cases sh) simp_all

lemma conforms_json_norm:
  shows "conforms v sh \<Longrightarrow> conforms (json_norm v) sh"
    and "conforms_members kvs declared \<Longrightarrow> conforms_members (norm_members kvs) declared"
proof (induction v sh and kvs declared rule: conforms_conforms_members.induct)
  case (4 k x kvs declared)
  then show ?case
    by (auto simp: json_norm_defined split: option.splits)
qed (auto simp: conforms_no_fields)

text \<open>
  Claim C1. For every endpoint with a declared output shape and every handler run that
  returns a plain value (one that \<open>isYxpResults\<close> does not take for a Result), the body of
  the Success response, after JSON decoding, has no field that the output shape does not
  declare, at any depth the shape describes. The stripping itself is done by the external
  library: the output shape is any schema whose cast with unknown-field stripping returns
  values that conform to what the shape declares (\<open>strips_unknown\<close>; the object shapes
  modelled above are such schemas when their fields' shapes are, by
  \<open>yup_object_strips_unknown\<close>). The endpoint sends, with status 200, the JSON text of
  what the cast returns and nothing of the value the handler returned, and decoding that
  text gives a value that conforms (when the cast returns \<open>undefined\<close> the body is
  \<open>undefined\<close>, an empty body). When the cast throws, no Success is encoded: the thrown
  value is treated as one the handler threw. The example is the demonstration's
  \<open>/api/isme/1\<close> for the user with id 1: the handler returns the user record with its
  password, and the body is \<open>{"isme":true,"user":{"id":1,"username":"michael"}}\<close>.
\<close>

theorem output_shape_fields_only:
  assumes "handler_outcome F action sch request rs s = Some (Inr v, s2)"
    and "\<not> isYxpResults v"
    and "strips_unknown formatter declared"
  shows "case cast_stripUnknown formatter v of
           Inl e \<Rightarrow>
             endpoint F action sch (Some formatter) request rs s =
               (if isYxpResults e then sendResults rs e s2 else (Inl e, s2))
         | Inr w \<Rightarrow>
             endpoint F action sch (Some formatter) request rs s =
               (Inr (), s2\<lparr>calls := calls s2 @ [ResStatus (JNum 200), ResSend (JSON_stringify w)]\<rparr>)
             \<and> (JSON_stringify w = JUndefined \<or>
                  (\<exists>t d. JSON_stringify w = JStr t \<and> JSON_parse t = Some d \<and> conforms d declared))"
proof (cases "cast_stripUnknown formatter v")
  case (Inl e)
  with assms(1,2) show ?thesis
    by (simp add: endpoint_handler_outcome sendUnknownResponse_def js_catch_def js_throw_def)
next
  case (Inr w)
  from assms(3) Inr have "conforms w declared"
    unfolding strips_unknown_def by blast
  then have "conforms (json_norm w) declared"
    by (rule conforms_json_norm)
  then have "JSON_stringify w = JUndefined \<or>
      (\<exists>t d. JSON_stringify w = JStr t \<and> JSON_parse t = Some d \<and> conforms d declared)"
    by (simp add: JSON_stringify_def JSON_parse_stringify)
  with Inr assms(1,2) show ?thesis
    using endpoint_returned_plain [of F action sch request rs s v s2 "Some formatter" w]
    by simp
qed

theorem output_shape_fields_only_witness:
  "handler_outcome user_logged_in isme_action
     (Some \<lparr>params_schema = Some IdRequired, query_schema = None, body_schema = None\<rparr>)
     (JObj [(''params'', JObj [(''id'', JStr ''1'')])]) TheResponse start =
     Some (Inr (JObj [(''user'', michael), (''isme'', JBool True)]),
           \<lparr>calls = [ValidateCall ''params'' (JObj [(''id'', JStr ''1'')]), ActionCall,
                     FactoryCall ''user'', ServiceRead ''user'' (Inr michael)], world = 1\<rparr>)
   \<and> \<not> isYxpResults (JObj [(''user'', michael), (''isme'', JBool True)])
   \<and> \<not> conforms (JObj [(''user'', michael), (''isme'', JBool True)]) IsMeShape
   \<and> strips_unknown IsMeResponse IsMeShape
   \<and> endpoint user_logged_in isme_action
       (Some \<lparr>params_schema = Some IdRequired, query_schema = None, body_schema = None\<rparr>)
       (Some IsMeResponse) (JObj [(''params'', JObj [(''id'', JStr ''1'')])]) TheResponse start =
       (Inr (), \<lparr>calls = [ValidateCall ''params'' (JObj [(''id'', JStr ''1'')]), ActionCall,
                          FactoryCall ''user'', ServiceRead ''user'' (Inr michael),
                          ResStatus (JNum 200),
                          ResSend (JStr ''{\"isme\":true,\"user\":{\"id\":1,\"username\":\"michael\"}}'')],
                 world = 1\<rparr>)
   \<and> JSON_parse ''{\"isme\":true,\"user\":{\"id\":1,\"username\":\"michael\"}}'' =
       Some (JObj [(''isme'', JBool True),
                   (''user'', JObj [(''id'', JNum 1), (''username'', JStr ''michael'')])])
   \<and> conforms (JObj [(''isme'', JBool True),
                     (''user'', JObj [(''id'', JNum 1), (''username'', JStr ''michael'')])]) IsMeShape"
proof -
  let ?v = "JObj [(''user'', michael), (''isme'', JBool True)]"
  let ?w = "JObj [(''isme'', JBool True),
                  (''user'', JObj [(''id'', JNum 1), (''username'', JStr ''michael'')])]"
  let ?sch = "Some \<lparr>params_schema = Some IdRequired, query_schema = None, body_schema = None\<rparr>"
  let ?request = "JObj [(''params'', JObj [(''id'', JStr ''1'')])]"
  have h: "handler_outcome user_logged_in isme_action ?sch ?request TheResponse start =
     Some (Inr ?v,
           \<lparr>calls = [ValidateCall ''params'' (JObj [(''id'', JStr ''1'')]), ActionCall,
                     FactoryCall ''user'', ServiceRead ''user'' (Inr michael)], world = 1\<rparr>)"
    by (simp add: request_defs shape_defs user_logged_in_def isme_action_def)
  have p: "\<not> isYxpResults ?v"
    by (simp add: request_defs)
  have n: "\<not> conforms ?v IsMeShape"
    by (simp add: IsMeShape_def michael_def)
  have user: "strips_unknown UserResponse (ObjectOf [(''id'', AnyValue), (''username'', AnyValue)])"
    unfolding UserResponse_def
    by (rule yup_object_strips_unknown) (simp add: strips_unknown_AnyValue)
  have c: "strips_unknown IsMeResponse IsMeShape"
    unfolding IsMeResponse_def IsMeShape_def
    by (rule yup_object_strips_unknown) (simp add: strips_unknown_AnyValue user)
  have w: "cast_stripUnknown IsMeResponse ?v = Inr ?w"
    by (simp add: shape_defs IsMeResponse_def yup_boolean_def michael_def)
  have t: "JSON_ser ?w = ''{\"isme\":true,\"user\":{\"id\":1,\"username\":\"michael\"}}''"
    by (simp add: json_text_defs)
  have d: "JSON_parse ''{\"isme\":true,\"user\":{\"id\":1,\"username\":\"michael\"}}'' = Some ?w"
    using JSON_parse_stringify [of ?w] by (simp only: t) simp
  have k: "conforms ?w IsMeShape"
    by (simp add: IsMeShape_def)
  from output_shape_fields_only [OF h p c] w t
  have "endpoint user_logged_in isme_action ?sch (Some IsMeResponse) ?request TheResponse start =
       (Inr (), \<lparr>calls = [ValidateCall ''params'' (JObj [(''id'', JStr ''1'')]), ActionCall,
                          FactoryCall ''user'', ServiceRead ''user'' (Inr michael),
                          ResStatus (JNum 200),
                          ResSend (JStr ''{\"isme\":true,\"user\":{\"id\":1,\"username\":\"michael\"}}'')],
                 world = 1\<rparr>)"
    by (simp add: JSON_stringify_def)
  with h p n c d k show ?thesis
    by blast
qed

section \<open>Input validation\<close>

text \<open>
  Claim C2. For every request, the three input categories are validated in the order
  params, query, body; the first category whose validation fails ends the validation
  (the later categories are not attempted), the handler is not invoked, and the response
  is a single Error with status 400 whose body is the failure message. The calls of the
  request are exactly the validations up to the failing one, then \<open>status(400)\<close> and
  \<open>send(message)\<close>.
\<close>

theorem validation_failure_short_circuits:
  assumes "first_validation_failure (categories schemata request) = Some (cs, message)"
  shows "endpoint F action (Some schemata) fmt request rs s =
           (Inr (), s\<lparr>calls := calls s @ cs @ [ResStatus (JNum 400), ResSend (JStr message)]\<rparr>)
         \<and> handler_outcome F action (Some schemata) request rs s = None
         \<and> ActionCall \<notin> set cs"
proof -
  have g: "getSchemataArgs request schemata s = (paramError message, s\<lparr>calls := calls s @ cs\<rparr>)"
    using assms by (rule getSchemataArgs_failure)
  have a: "ActionCall \<notin> set cs"
    using assms
    by (cases "params_schema schemata"; cases "query_schema schemata"; cases "body_schema schemata")
       (auto simp: categories_def split: sum.splits)
  show ?thesis
    using g a
    by (simp add: endpoint_def handler_outcome_def
        sendResults_yxpError [of _ BAD_REQUEST "Some message", folded paramError_def] BAD_REQUEST_def)
qed

theorem validation_failure_short_circuits_witness:
  "first_validation_failure
     (categories \<lparr>params_schema = Some IdRequired, query_schema = Some IdRequired, body_schema = Some IdRequired\<rparr>
        (JObj [(''params'', JObj [(''id'', JStr ''3'')]), (''query'', JObj [(''id'', JStr ''three'')])])) =
     Some ([ValidateCall ''params'' (JObj [(''id'', JStr ''3'')]),
            ValidateCall ''query'' (JObj [(''id'', JStr ''three'')])], ''id must be a number'')
   \<and> endpoint no_services (\<lambda>a. Return (params a))
       (Some \<lparr>params_schema = Some IdRequired, query_schema = Some IdRequired, body_schema = Some IdRequired\<rparr>)
       None (JObj [(''params'', JObj [(''id'', JStr ''3'')]), (''query'', JObj [(''id'', JStr ''three'')])])
       TheResponse start =
     (Inr (), \<lparr>calls = [ValidateCall ''params'' (JObj [(''id'', JStr ''3'')]),
                        ValidateCall ''query'' (JObj [(''id'', JStr ''three'')]),
                        ResStatus (JNum 400), ResSend (JStr ''id must be a number'')], world = 0\<rparr>)"
proof -
  have f: "first_validation_failure
     (categories \<lparr>params_schema = Some IdRequired, query_schema = Some IdRequired, body_schema = Some IdRequired\<rparr>
        (JObj [(''params'', JObj [(''id'', JStr ''3'')]), (''query'', JObj [(''id'', JStr ''three'')])])) =
     Some ([ValidateCall ''params'' (JObj [(''id'', JStr ''3'')]),
            ValidateCall ''query'' (JObj [(''id'', JStr ''three'')])], ''id must be a number'')"
    by (simp add: categories_def js_member_def shape_defs)
  from validation_failure_short_circuits [OF f, of no_services "\<lambda>a. Return (params a)" None TheResponse start]
  show ?thesis
    using f by (simp add: start_def)
qed

section \<open>Services\<close>

text \<open>
  Claim C3 says that the factory of a service is invoked exactly once if the handler
  reads the service property one or more times. That fails when the factory throws and
  the handler catches what it threw and reads the property again: \<open>memoize\<close> stores
  nothing for a call that throws, so the second read invokes the factory a second time.
  Here the \<open>user\<close> service of the demonstration application throws for a request
  without a session, and the handler reads it twice.
\<close>

theorem factory_invoked_twice_counterexample:
  "calls (snd (endpoint user_unauthorized reads_user_twice None None (JObj []) TheResponse start)) =
     [ActionCall,
      FactoryCall ''user'', ServiceRead ''user'' (Inl (yxpError 401 None)),
      FactoryCall ''user'', ServiceRead ''user'' (Inl (yxpError 401 None)),
      ResStatus (JNum 200), ResSend JUndefined]
   \<and> factory_calls ''user''
        (calls (snd (endpoint user_unauthorized reads_user_twice None None (JObj []) TheResponse start))) = 2"
  by (simp add: run_defs json_text_defs yxpError_def factory_calls_def)

text \<open>
  Claim C3, as amended. For every service name and every single request, among the calls
  the request makes: the factory is invoked once for every read of the service property
  that throws, and once more if some read returns a value; so it is invoked zero times if
  the handler never reads the property, and exactly once if the handler reads it one or
  more times and no read throws. Every read that returns gives the same value, the one
  cached by the first such read, without another invocation of the factory.
\<close>

theorem service_factory_invocations:
  "\<exists>new. calls (snd (endpoint F action sch fmt request rs s)) = calls s @ new \<and>
     factory_calls name new = failed_reads name new + (if read_values name new = [] then 0 else 1) \<and>
     (\<forall>v \<in> set (read_values name new). v = hd (read_values name new))"
proof -
  obtain r s' where e: "endpoint F action sch fmt request rs s = (r, s')"
    by (cases "endpoint F action sch fmt request rs s")
  from endpoint_tally [OF e, of name]
  obtain new after where n: "calls s' = calls s @ new" "tally name None new after"
    by blast
  have "\<forall>v \<in> set (read_values name new). v = hd (read_values name new)"
    using n(2) by (cases "read_values name new") (auto simp: tally_def split: option.splits)
  with n e show ?thesis
    by (auto simp: tally_def)
qed

theorem service_factory_invocations_witness:
  "calls (snd (endpoint counting_service reads_used_twice None None (JObj []) TheResponse start)) =
     [ActionCall, FactoryCall ''used'', ServiceRead ''used'' (Inr (JNum 0)),
      ServiceRead ''used'' (Inr (JNum 0)), ResStatus (JNum 200), ResSend (JStr ''{}'')]
   \<and> (\<exists>new. calls (snd (endpoint counting_service reads_used_twice None None (JObj []) TheResponse start)) =
          calls start @ new \<and> factory_calls ''used'' new = 1 \<and> failed_reads ''used'' new = 0 \<and>
          read_values ''used'' new = [JNum 0, JNum 0])"
proof -
  have c: "calls (snd (endpoint counting_service reads_used_twice None None (JObj []) TheResponse start)) =
     [ActionCall, FactoryCall ''used'', ServiceRead ''used'' (Inr (JNum 0)),
      ServiceRead ''used'' (Inr (JNum 0)), ResStatus (JNum 200), ResSend (JStr ''{}'')]"
    by (simp add: run_defs json_text_defs)
  from service_factory_invocations [of counting_service reads_used_twice None None "JObj []" TheResponse start "''used''"]
  obtain new where n: "calls (snd (endpoint counting_service reads_used_twice None None (JObj []) TheResponse start)) =
      calls start @ new"
    "factory_calls ''used'' new = failed_reads ''used'' new + (if read_values ''used'' new = [] then 0 else 1)"
    by blast
  from n(1) c have new: "new = [ActionCall, FactoryCall ''used'', ServiceRead ''used'' (Inr (JNum 0)),
      ServiceRead ''used'' (Inr (JNum 0)), ResStatus (JNum 200), ResSend (JStr ''{}'')]"
    by (simp add: start_def)
  have "factory_calls ''used'' new = 1 \<and> failed_reads ''used'' new = 0 \<and> read_values ''used'' new = [JNum 0, JNum 0]"
    using n(2) unfolding new by simp
  with c n(1) show ?thesis
    by blast
qed

section \<open>Thrown values\<close>

text \<open>
  Claim C4. For every value thrown during the execution of the handler or of a service
  factory and not caught by the handler itself: if it is a structured Result it is
  caught and sent as the response, exactly as if the handler had returned it; if it is
  not, it is not caught by this layer and propagates to the caller (the promise rejects
  with it), and nothing is written to the response.
\<close>

theorem thrown_values_caught_iff_structured:
  assumes "handler_outcome F action sch request rs s = Some (Inl e, s2)"
  shows "(isYxpResults e \<longrightarrow>
            endpoint F action sch fmt request rs s = sendResults rs e s2 \<and>
            (handler_outcome F action' sch request rs s = Some (Inr e, s2) \<longrightarrow>
               endpoint F action' sch fmt request rs s = endpoint F action sch fmt request rs s))
         \<and> (\<not> isYxpResults e \<longrightarrow> endpoint F action sch fmt request rs s = (Inl e, s2))"
  using assms
  by (auto simp: endpoint_thrown endpoint_returned_Results)

theorem thrown_values_caught_iff_structured_witness:
  "handler_outcome user_unauthorized reads_user None (JObj []) TheResponse start =
     Some (Inl (yxpError 401 None),
           \<lparr>calls = [ActionCall, FactoryCall ''user'', ServiceRead ''user'' (Inl (yxpError 401 None))],
            world = 1\<rparr>)
   \<and> isYxpResults (yxpError 401 None)
   \<and> endpoint user_unauthorized reads_user None (Some UserResponse) (JObj []) TheResponse start =
       (Inr (), \<lparr>calls = [ActionCall, FactoryCall ''user'', ServiceRead ''user'' (Inl (yxpError 401 None)),
                          ResStatus (JNum 401), ResSend (JStr [])], world = 1\<rparr>)
   \<and> handler_outcome user_unauthorized returns_user_error None (JObj []) TheResponse start =
       Some (Inr (yxpError 401 None),
           \<lparr>calls = [ActionCall, FactoryCall ''user'', ServiceRead ''user'' (Inl (yxpError 401 None))],
            world = 1\<rparr>)
   \<and> endpoint user_unauthorized returns_user_error None (Some UserResponse) (JObj []) TheResponse start =
       endpoint user_unauthorized reads_user None (Some UserResponse) (JObj []) TheResponse start
   \<and> handler_outcome no_services (\<lambda>a. Throw (JErr ''Error'' ''boom'')) None (JObj []) TheResponse start =
       Some (Inl (JErr ''Error'' ''boom''), \<lparr>calls = [ActionCall], world = 0\<rparr>)
   \<and> \<not> isYxpResults (JErr ''Error'' ''boom'')
   \<and> endpoint no_services (\<lambda>a. Throw (JErr ''Error'' ''boom'')) None (Some UserResponse) (JObj []) TheResponse start =
       (Inl (JErr ''Error'' ''boom''), \<lparr>calls = [ActionCall], world = 0\<rparr>)"
proof -
  have h1: "handler_outcome user_unauthorized reads_user None (JObj []) TheResponse start =
     Some (Inl (yxpError 401 None),
           \<lparr>calls = [ActionCall, FactoryCall ''user'', ServiceRead ''user'' (Inl (yxpError 401 None))],
            world = 1\<rparr>)"
    by (simp add: request_defs yxpError_def)
  have h1': "handler_outcome user_unauthorized returns_user_error None (JObj []) TheResponse start =
       Some (Inr (yxpError 401 None),
           \<lparr>calls = [ActionCall, FactoryCall ''user'', ServiceRead ''user'' (Inl (yxpError 401 None))],
            world = 1\<rparr>)"
    by (simp add: request_defs yxpError_def)
  have r1: "isYxpResults (yxpError 401 None)"
    by (simp add: request_defs yxpError_def)
  have h2: "handler_outcome no_services (\<lambda>a. Throw (JErr ''Error'' ''boom'')) None (JObj []) TheResponse start =
       Some (Inl (JErr ''Error'' ''boom''), \<lparr>calls = [ActionCall], world = 0\<rparr>)"
    by (simp add: request_defs)
  have r2: "\<not> isYxpResults (JErr ''Error'' ''boom'')"
    by (simp add: request_defs)
  note caught = thrown_values_caught_iff_structured [OF h1, of "Some UserResponse" returns_user_error]
  from caught r1
  have e1: "endpoint user_unauthorized reads_user None (Some UserResponse) (JObj []) TheResponse start =
       (Inr (), \<lparr>calls = [ActionCall, FactoryCall ''user'', ServiceRead ''user'' (Inl (yxpError 401 None)),
                          ResStatus (JNum 401), ResSend (JStr [])], world = 1\<rparr>)"
    by (simp add: sendResults_yxpError)
  from caught r1 h1'
  have e1': "endpoint user_unauthorized returns_user_error None (Some UserResponse) (JObj []) TheResponse start =
       endpoint user_unauthorized reads_user None (Some UserResponse) (JObj []) TheResponse start"
    by blast
  from thrown_values_caught_iff_structured [OF h2, of "Some UserResponse"] r2
  have e2: "endpoint no_services (\<lambda>a. Throw (JErr ''Error'' ''boom'')) None (Some UserResponse) (JObj []) TheResponse start =
       (Inl (JErr ''Error'' ''boom''), \<lparr>calls = [ActionCall], world = 0\<rparr>)"
    by simp
  from h1 r1 e1 h1' e1' h2 r2 e2 show ?thesis
    by blast
qed

section \<open>Endpoints without an output shape\<close>

text \<open>
  Claim C5 says that without an output shape a plain value returned by the handler is
  passed through unmodified. The source casts it through the default formatter
  \<open>BlankReturn\<close>, the object shape without fields, with unknown-field stripping: the
  object \<open>{a: 1}\<close> is sent as the text \<open>{}\<close>, which is neither the value nor its JSON
  text. (The overloads of \<open>endpoint\<close> without an output shape type the handler as
  returning a Result or nothing.)
\<close>

theorem no_output_shape_passthrough_counterexample:
  "endpoint no_services (\<lambda>a. Return (JObj [(''a'', JNum 1)])) None None (JObj []) TheResponse start =
     (Inr (), \<lparr>calls = [ActionCall, ResStatus (JNum 200), ResSend (JStr ''{}'')], world = 0\<rparr>)
   \<and> JSON_stringify (JObj [(''a'', JNum 1)]) = JStr ''{\"a\":1}''
   \<and> JStr ''{}'' \<noteq> JObj [(''a'', JNum 1)]"
  by (simp add: run_defs json_text_defs)

text \<open>
  Claim C5, as amended. For every endpoint declared without an output shape, a plain
  object returned by the handler is cast through the blank object shape with
  unknown-field stripping and sent as a Success with status 200 whose body is the JSON
  text of the empty object: every field of the value is stripped.
\<close>

theorem no_output_shape_strips_every_field:
  assumes "handler_outcome F action sch request rs s = Some (Inr (JObj kvs), s2)"
    and "\<not> isYxpResults (JObj kvs)"
  shows "endpoint F action sch None request rs s =
     (Inr (), s2\<lparr>calls := calls s2 @ [ResStatus (JNum 200), ResSend (JStr ''{}'')]\<rparr>)"
  using assms endpoint_returned_plain [of F action sch request rs s "JObj kvs" s2 None "JObj []"]
  by (simp add: BlankReturn_cast_object JSON_stringify_def)

theorem no_output_shape_strips_every_field_witness:
  "handler_outcome no_services (\<lambda>a. Return michael) None (JObj []) TheResponse start =
     Some (Inr michael, \<lparr>calls = [ActionCall], world = 0\<rparr>)
   \<and> \<not> isYxpResults michael
   \<and> endpoint no_services (\<lambda>a. Return michael) None None (JObj []) TheResponse start =
       (Inr (), \<lparr>calls = [ActionCall, ResStatus (JNum 200), ResSend (JStr ''{}'')], world = 0\<rparr>)"
proof -
  have h: "handler_outcome no_services (\<lambda>a. Return michael) None (JObj []) TheResponse start =
     Some (Inr michael, \<lparr>calls = [ActionCall], world = 0\<rparr>)"
    by (simp add: request_defs)
  have p: "\<not> isYxpResults michael"
    by (simp add: request_defs)
  from no_output_shape_strips_every_field [OF h [unfolded michael_def] p [unfolded michael_def]] h p
  show ?thesis
    by (simp add: michael_def)
qed

text \<open>
  Claim C8. For every endpoint declared without an output shape, a handler run that
  returns nothing (\<open>undefined\<close>) gives a Success response with status 200 and an empty
  body: the body handed to \<open>send\<close> is \<open>undefined\<close> (\<open>JSON.stringify\<close> of the
  \<open>undefined\<close> that the blank shape's cast returns), for which nothing is written.
\<close>

theorem no_output_shape_undefined_gives_empty_200:
  assumes "handler_outcome F action sch request rs s = Some (Inr JUndefined, s2)"
  shows "endpoint F action sch None request rs s =
     (Inr (), s2\<lparr>calls := calls s2 @ [ResStatus (JNum 200), ResSend JUndefined]\<rparr>)"
proof -
  have "\<not> isYxpResults JUndefined"
    by (simp add: isYxpResults_iff)
  with assms show ?thesis
    using endpoint_returned_plain [of F action sch request rs s JUndefined s2 None JUndefined]
    by (simp add: BlankReturn_cast_undefined JSON_stringify_def)
qed

theorem no_output_shape_undefined_gives_empty_200_witness:
  "handler_outcome no_services (\<lambda>a. Return JUndefined) None (JObj []) TheResponse start =
     Some (Inr JUndefined, \<lparr>calls = [ActionCall], world = 0\<rparr>)
   \<and> endpoint no_services (\<lambda>a. Return JUndefined) None None (JObj []) TheResponse start =
       (Inr (), \<lparr>calls = [ActionCall, ResStatus (JNum 200), ResSend JUndefined], world = 0\<rparr>)"
proof -
  have h: "handler_outcome no_services (\<lambda>a. Return JUndefined) None (JObj []) TheResponse start =
     Some (Inr JUndefined, \<lparr>calls = [ActionCall], world = 0\<rparr>)"
    by (simp add: request_defs)
  from no_output_shape_undefined_gives_empty_200 [OF h] h show ?thesis
    by simp
qed

section \<open>Sending a Result\<close>

text \<open>
  Claim C6 says that the response of a Success carries the Success's declared MIME type.
  The source stores the MIME type in the options of the Success (\<open>text\<close>, \<open>html\<close>,
  \<open>json\<close>), but \<open>sendResults\<close> never reads it: the calls on the response for
  \<open>text("hi", "text/plain")\<close> and for \<open>html("hi")\<close> are the same two calls,
  \<open>status(200)\<close> and \<open>send("hi")\<close>, and no call sets a content type, although the
  options of the first hold \<open>text/plain\<close>. The status and the order of the cookies and
  headers before the body are as the claim says (see C9).
\<close>

theorem mime_type_not_applied:
  "sendResults TheResponse (text_yxp (JStr ''hi'') ''text/plain'' None) start =
     (Inr (), \<lparr>calls = [ResStatus (JNum 200), ResSend (JStr ''hi'')], world = 0\<rparr>)
   \<and> sendResults TheResponse (html (JStr ''hi'') None) start =
     (Inr (), \<lparr>calls = [ResStatus (JNum 200), ResSend (JStr ''hi'')], world = 0\<rparr>)
   \<and> js_member (js_member (text_yxp (JStr ''hi'') ''text/plain'' None) ''options'') ''mimeType'' =
       JStr ''text/plain''"
proof -
  have sent: "sendResults TheResponse (text_yxp (JStr ''hi'') mime None) start =
     (Inr (), \<lparr>calls = [ResStatus (JNum 200), ResSend (JStr ''hi'')], world = 0\<rparr>)" for mime
    by (simp add: text_yxp_def sendResults_yxpSuccess cookie_calls_def header_calls_def
        no_options_def OK_def start_def)
  have declared: "js_member (js_member (text_yxp (JStr ''hi'') ''text/plain'' None) ''options'') ''mimeType'' =
       JStr ''text/plain''"
    by (simp add: text_yxp_def no_options_def yxpSuccess_def options_js_def js_member_def)
  from sent declared show ?thesis
    by (simp add: html_def)
qed

text \<open>
  Claim C7. For every handler run that returns a structured Success, the output shape is
  not applied: the body of the Success is sent exactly as given, with its status and
  after its cookies and headers, whatever output shape the endpoint declares.
\<close>

theorem structured_success_bypasses_output_shape:
  assumes "handler_outcome F action sch request rs s = Some (Inr (yxpSuccess b st options), s2)"
  shows "endpoint F action sch fmt request rs s =
     (let opts = (case options of None \<Rightarrow> no_options | Some given \<Rightarrow> given)
      in (Inr (), s2\<lparr>calls := calls s2 @ cookie_calls opts @ header_calls opts @
            [ResStatus (JNum (case st of None \<Rightarrow> OK | Some c \<Rightarrow> c)), ResSend b]\<rparr>))"
proof -
  have "isYxpResults (yxpSuccess b st options)"
    by (simp add: yxpSuccess_def isYxpResults_def lodash_get_def ResultTypes_def)
  with assms show ?thesis
    by (simp add: endpoint_returned_Results sendResults_yxpSuccess)
qed

theorem structured_success_bypasses_output_shape_witness:
  "handler_outcome no_services (\<lambda>a. Return (html (JStr ''<p>hi</p>'') None)) None (JObj []) TheResponse start =
     Some (Inr (yxpSuccess (JStr ''<p>hi</p>'') (Some OK) (Some (no_options\<lparr>mimeType := Some ''text/html''\<rparr>))),
           \<lparr>calls = [ActionCall], world = 0\<rparr>)
   \<and> endpoint no_services (\<lambda>a. Return (html (JStr ''<p>hi</p>'') None)) None (Some UserResponse) (JObj []) TheResponse start =
       (Inr (), \<lparr>calls = [ActionCall, ResStatus (JNum 200), ResSend (JStr ''<p>hi</p>'')], world = 0\<rparr>)"
proof -
  have h: "handler_outcome no_services (\<lambda>a. Return (html (JStr ''<p>hi</p>'') None)) None (JObj []) TheResponse start =
     Some (Inr (yxpSuccess (JStr ''<p>hi</p>'') (Some OK) (Some (no_options\<lparr>mimeType := Some ''text/html''\<rparr>))),
           \<lparr>calls = [ActionCall], world = 0\<rparr>)"
    by (simp add: request_defs html_def text_yxp_def no_options_def)
  from structured_success_bypasses_output_shape [OF h, of "Some UserResponse"] h show ?thesis
    by (simp add: cookie_calls_def header_calls_def no_options_def OK_def)
qed

text \<open>
  Claim C9 says that the status code is written first and the cookies and headers of a
  Success after it. The source applies the cookies and the headers first and writes the
  status code after them: for the Success of the demonstration's login, \<open>json({}, {cookies})\<close>,
  the first call on the response is the cookie, not the status.
\<close>

theorem status_not_written_first_counterexample:
  "calls (snd (sendResults TheResponse
          (json (JObj []) (Some (no_options\<lparr>cookies := Some [(''USERID'', ''1'')]\<rparr>))) start)) =
     [ResCookie ''USERID'' (JStr ''1''), ResStatus (JNum 200), ResSend (JStr ''{}'')]
   \<and> hd (calls (snd (sendResults TheResponse
          (json (JObj []) (Some (no_options\<lparr>cookies := Some [(''USERID'', ''1'')]\<rparr>))) start))) \<noteq>
       ResStatus (JNum 200)"
  by (simp add: json_def text_yxp_def sendResults_yxpSuccess cookie_calls_def header_calls_def
      no_options_def OK_def start_def json_text_defs)

text \<open>
  Claim C9, as amended. When a Result is sent, the operations on the response happen in
  this order: for a Success the declared cookies are applied, then the declared headers;
  then the status code is written; then the body is written, which is the last operation
  on the response.
\<close>

theorem cookies_headers_status_body_order:
  "sendResults rs (yxpSuccess b st options) s =
     (let opts = (case options of None \<Rightarrow> no_options | Some given \<Rightarrow> given)
      in (Inr (), s\<lparr>calls := calls s @ cookie_calls opts @ header_calls opts @
            [ResStatus (JNum (case st of None \<Rightarrow> OK | Some c \<Rightarrow> c)), ResSend b]\<rparr>))
   \<and> sendResults rs (yxpError code m) s =
     (Inr (), s\<lparr>calls := calls s @
        [ResStatus (JNum code), ResSend (JStr (case m of None \<Rightarrow> [] | Some t \<Rightarrow> t))]\<rparr>)"
proof (intro conjI)
  show "sendResults rs (yxpSuccess b st options) s =
     (let opts = (case options of None \<Rightarrow> no_options | Some given \<Rightarrow> given)
      in (Inr (), s\<lparr>calls := calls s @ cookie_calls opts @ header_calls opts @
            [ResStatus (JNum (case st of None \<Rightarrow> OK | Some c \<Rightarrow> c)), ResSend b]\<rparr>))"
    by (simp add: sendResults_yxpSuccess)
next
  show "sendResults rs (yxpError code m) s =
     (Inr (), s\<lparr>calls := calls s @
        [ResStatus (JNum code), ResSend (JStr (case m of None \<Rightarrow> [] | Some t \<Rightarrow> t))]\<rparr>)"
    by (simp add: sendResults_yxpError)
qed

section \<open>Classification by the type field\<close>

text \<open>
  Claim C10. Whether a returned value is a structured Result is decided by its \<open>type\<close>
  field alone. For every endpoint, whatever output shape it declares, a returned object
  whose \<open>type\<close> field is \<open>"YxpSuccess"\<close> or \<open>"YxpError"\<close> is handed to \<open>sendResults\<close>
  as it is: no cast through the output shape, no stripping of fields. For the type
  \<open>"YxpError"\<close> the response is the object's own \<open>statusCode\<close> and \<open>body\<close> fields,
  whatever they are. (For the type \<open>"YxpSuccess"\<close>, \<open>sendResults\<close> reads the \<open>options\<close>
  field first and throws a \<open>TypeError\<close> when the object has none.)
\<close>

theorem results_classified_by_type_field:
  assumes "handler_outcome F action sch request rs s = Some (Inr v, s2)"
    and "lodash_get v ''type'' = JStr ''YxpSuccess'' \<or> lodash_get v ''type'' = JStr ''YxpError''"
  shows "(\<forall>u. isYxpResults u \<longleftrightarrow>
            lodash_get u ''type'' = JStr ''YxpSuccess'' \<or> lodash_get u ''type'' = JStr ''YxpError'')
         \<and> endpoint F action sch fmt request rs s = sendResults rs v s2
         \<and> (lodash_get v ''type'' = JStr ''YxpError'' \<longrightarrow>
              endpoint F action sch fmt request rs s =
                (Inr (), s2\<lparr>calls := calls s2 @
                   [ResStatus (js_member v ''statusCode''), ResSend (js_member v ''body'')]\<rparr>))"
proof -
  from assms(2) have r: "isYxpResults v"
    by (auto simp: isYxpResults_def ResultTypes_def)
  then obtain kvs where v: "v = JObj kvs"
    by (auto simp: isYxpResults_iff)
  have e: "endpoint F action sch fmt request rs s = sendResults rs v s2"
    using assms(1) r by (rule endpoint_returned_Results)
  have "lodash_get v ''type'' = JStr ''YxpError'' \<Longrightarrow>
      sendResults rs v s2 = (Inr (), s2\<lparr>calls := calls s2 @
         [ResStatus (js_member v ''statusCode''), ResSend (js_member v ''body'')]\<rparr>)"
    by (simp add: v lodash_get_def js_member_def sendResults_def isYxpSuccess_def js_bind_def res_status_def
        res_send_def log_call_def split: option.splits)
  moreover have "\<forall>u. isYxpResults u \<longleftrightarrow>
      lodash_get u ''type'' = JStr ''YxpSuccess'' \<or> lodash_get u ''type'' = JStr ''YxpError''"
    by (auto simp: isYxpResults_def ResultTypes_def)
  ultimately show ?thesis
    using e by simp
qed

theorem results_classified_by_type_field_witness:
  "handler_outcome no_services (\<lambda>a. Return tagged_object) None (JObj []) TheResponse start =
     Some (Inr tagged_object, \<lparr>calls = [ActionCall], world = 0\<rparr>)
   \<and> lodash_get tagged_object ''type'' = JStr ''YxpError''
   \<and> endpoint no_services (\<lambda>a. Return tagged_object) None (Some IdRequired) (JObj []) TheResponse start =
       (Inr (), \<lparr>calls = [ActionCall, ResStatus JUndefined, ResSend JUndefined], world = 0\<rparr>)"
proof -
  have h: "handler_outcome no_services (\<lambda>a. Return tagged_object) None (JObj []) TheResponse start =
     Some (Inr tagged_object, \<lparr>calls = [ActionCall], world = 0\<rparr>)"
    by (simp add: request_defs)
  have t: "lodash_get tagged_object ''type'' = JStr ''YxpError''"
    by (simp add: request_defs)
  have u: "js_member tagged_object ''statusCode'' = JUndefined"
    "js_member tagged_object ''body'' = JUndefined"
    by (simp_all add: tagged_object_def js_member_def)
  from results_classified_by_type_field [OF h disjI2 [OF t], of "Some IdRequired"] t
  have "endpoint no_services (\<lambda>a. Return tagged_object) None (Some IdRequired) (JObj []) TheResponse start =
      (Inr (), \<lparr>calls = [ActionCall], world = 0\<rparr>\<lparr>calls := calls \<lparr>calls = [ActionCall], world = 0::nat\<rparr> @
         [ResStatus (js_member tagged_object ''statusCode''), ResSend (js_member tagged_object ''body'')]\<rparr>)"
    by blast
  then have e: "endpoint no_services (\<lambda>a. Return tagged_object) None (Some IdRequired) (JObj []) TheResponse start =
       (Inr (), \<lparr>calls = [ActionCall, ResStatus JUndefined, ResSend JUndefined], world = 0\<rparr>)"
    by (simp add: u)
  from h t e show ?thesis
    by blast
qed

section \<open>Further properties\<close>

lemma first_validation_failure_None:
  "first_validation_failure ((category, schema, raw) # rest) = None \<longleftrightarrow>
     passes schema raw \<and> first_validation_failure rest = None"
  by (cases schema) (auto simp: passes_def split: sum.splits)

lemma validate_category_passes:
  assumes "passes schema raw"
  shows "validate_category category schema raw s =
     (Inr (validated schema raw), s\<lparr>calls := calls s @ attempted [(category, schema, raw)]\<rparr>)"
  using assms
  by (cases schema) (auto simp: passes_def validate_category_def validated_def js_or_def split: sum.splits)

lemma attempted_Cons: "attempted (c # rest) = attempted [c] @ attempted rest"
proof -
  obtain category schema raw where "c = (category, schema, raw)"
    by (cases c)
  then show ?thesis
    by (cases schema) auto
qed

lemma getSchemataArgs_passes:
  assumes "first_validation_failure (categories schemata request) = None"
  shows "getSchemataArgs request schemata s =
     (JObj [(''params'', validated (params_schema schemata) (js_member request ''params'')),
            (''query'', validated (query_schema schemata) (js_member request ''query'')),
            (''body'', validated (body_schema schemata) (js_member request ''body''))],
      s\<lparr>calls := calls s @ attempted (categories schemata request)\<rparr>)"
proof -
  from assms have p: "passes (params_schema schemata) (js_member request ''params'')"
    and q: "passes (query_schema schemata) (js_member request ''query'')"
    and b: "passes (body_schema schemata) (js_member request ''body'')"
    by (simp_all add: categories_def first_validation_failure_None)
  have a: "attempted (categories schemata request) =
      attempted [(''params'', params_schema schemata, js_member request ''params'')] @
      attempted [(''query'', query_schema schemata, js_member request ''query'')] @
      attempted [(''body'', body_schema schemata, js_member request ''body'')]"
    unfolding categories_def
    by (subst attempted_Cons, subst (2) attempted_Cons) simp
  show ?thesis
    unfolding getSchemataArgs_def a
    by (simp add: validate_category_passes [OF p] validate_category_passes [OF q]
        validate_category_passes [OF b])
qed

text \<open>
  Property X1. For every endpoint and every request whose declared categories all pass
  their validation, the handler is invoked after the validations of the declared
  categories, made in the order params, query, body, and receives for each category the
  validated value, converted as the shape converts it (the empty object when the category
  has no shape or the validated value is falsy), with the request and the response.
\<close>

theorem valid_inputs_reach_handler:
  assumes "first_validation_failure (categories schemata request) = None"
  shows "handler_outcome F action (Some schemata) request rs s =
     Some (call_action action
        (addServices F
           \<lparr>req = request, res = rs,
            params = validated (params_schema schemata) (js_member request ''params''),
            query = validated (query_schema schemata) (js_member request ''query''),
            body = validated (body_schema schemata) (js_member request ''body'')\<rparr>)
        (s\<lparr>calls := calls s @ attempted (categories schemata request)\<rparr>))"
  unfolding handler_outcome_def
  by (simp add: getSchemataArgs_passes [OF assms] isYxpResults_def lodash_get_def ResultTypes_def
      js_member_def)

theorem valid_inputs_reach_handler_witness:
  "first_validation_failure
     (categories (no_schemata\<lparr>query_schema := Some IdRequired\<rparr>) (JObj [(''query'', JObj [(''id'', JStr ''3'')])])) = None
   \<and> handler_outcome no_services (\<lambda>a. Return (js_member (query a) ''id''))
        (Some (no_schemata\<lparr>query_schema := Some IdRequired\<rparr>))
        (JObj [(''query'', JObj [(''id'', JStr ''3'')])]) TheResponse start =
      Some (Inr (JNum 3),
            \<lparr>calls = [ValidateCall ''query'' (JObj [(''id'', JStr ''3'')]), ActionCall], world = 0\<rparr>)"
proof -
  have f: "first_validation_failure
     (categories (no_schemata\<lparr>query_schema := Some IdRequired\<rparr>) (JObj [(''query'', JObj [(''id'', JStr ''3'')])])) = None"
    by (simp add: categories_def js_member_def no_schemata_def shape_defs)
  from valid_inputs_reach_handler [OF f, of no_services "\<lambda>a. Return (js_member (query a) ''id'')" TheResponse start] f
  show ?thesis
    by (simp add: validated_def categories_def no_schemata_def js_member_def shape_defs js_or_def
        call_action_def addServices_def start_def)
qed

lemma logger_return: "logger (js_return x)"
  unfolding logger_def js_return_def by (intro exI [of _ "Inr x"] exI [of _ "[]"]) simp

lemma logger_throw: "logger (js_throw e)"
  unfolding logger_def js_throw_def by (intro exI [of _ "Inl e"] exI [of _ "[]"]) simp

lemma logger_lift: "logger (js_lift r)"
  unfolding logger_def js_lift_def by (intro exI [of _ r] exI [of _ "[]"]) simp

lemma logger_log_call: "logger (log_call c)"
  unfolding logger_def log_call_def by (intro exI [of _ "Inr ()"] exI [of _ "[c]"]) simp

lemma logger_bind:
  assumes "logger m" and "\<And>x. logger (f x)"
  shows "logger (js_bind m f)"
proof -
  from assms(1) obtain r1 cs1 where m: "\<And>s. m s = (r1, s\<lparr>calls := calls s @ cs1\<rparr>)"
    unfolding logger_def by blast
  show ?thesis
  proof (cases r1)
    case (Inl e)
    with m have "\<forall>s. js_bind m f s = (Inl e, s\<lparr>calls := calls s @ cs1\<rparr>)"
      by (simp add: js_bind_def)
    then show ?thesis
      unfolding logger_def by blast
  next
    case (Inr x)
    from assms(2) obtain r2 cs2 where f: "\<And>s. f x s = (r2, s\<lparr>calls := calls s @ cs2\<rparr>)"
      unfolding logger_def by blast
    from m Inr f have "\<forall>s. js_bind m f s = (r2, s\<lparr>calls := calls s @ (cs1 @ cs2)\<rparr>)"
      by (simp add: js_bind_def)
    then show ?thesis
      unfolding logger_def by blast
  qed
qed

lemma logger_each:
  assumes "\<And>v n. logger (f v n)"
  shows "logger (js_each kvs f)"
  by (induction kvs) (auto intro!: logger_return logger_bind assms)

lemma logger_if: "logger a \<Longrightarrow> logger b \<Longrightarrow> logger (if c then a else b)"
  by simp

lemma logger_sendResults: "logger (sendResults rs v)"
  unfolding sendResults_def forOwn_def res_cookie_def res_header_def res_status_def res_send_def
  by (intro logger_bind logger_lift logger_each logger_log_call logger_if logger_return)

text \<open>
  Property X2. Encoding a Result has no state of its own: for every value handed to
  \<open>sendResults\<close>, the outcome and the calls written to the response are the same
  whatever the state of the request, so that encoding the same Result twice writes the
  same status, body, cookies and headers.
\<close>

theorem encoding_depends_on_result_only:
  "\<exists>r cs. \<forall>s. sendResults rs v s = (r, s\<lparr>calls := calls s @ cs\<rparr>)"
  using logger_sendResults [of rs v] unfolding logger_def .

end
